theory Spec2Isabelle
  imports Complex_Main
begin

section \<open>The cylindrical cell of scarabee: collision probabilities and response matrices\<close>

text \<open>
  A shallow embedding of \<^verbatim>\<open>src/cylindrical_cell.cpp\<close>. The C++ type \<^verbatim>\<open>double\<close> is
  idealised as \<^typ>\<open>real\<close>: arithmetic is exact and there is no NaN and no infinity
  (the checks of the constructor are modelled a second time, on doubles that may be NaN).
  Sizes and indices (\<^verbatim>\<open>std::size_t\<close>, \<^verbatim>\<open>std::uint32_t\<close>, \<^verbatim>\<open>long\<close>) are natural
  numbers. A C++ member \<^verbatim>\<open>name_\<close> is the record field \<open>cell_name\<close>, since a name of
  a constant cannot end with an underscore.
\<close>

subsection \<open>Data\<close>

text \<open>
  The class \<^verbatim>\<open>MGCrossSections\<close> is declared in a header that is not among the sources.
  The cell only calls its accessors \<^verbatim>\<open>ngroups()\<close>, \<^verbatim>\<open>Etr(g)\<close>, \<^verbatim>\<open>Es_tr(g)\<close> and
  \<^verbatim>\<open>Er_tr(g)\<close>; a material is the record of these four.
\<close>

record material =
  mat_ngroups :: nat
  Etr :: "nat \<Rightarrow> real"
  Es_tr :: "nat \<Rightarrow> real"
  Er_tr :: "nat \<Rightarrow> real"

text \<open>
  \<^verbatim>\<open>NDArray<double>\<close>, \<^verbatim>\<open>Eigen::MatrixXd\<close> and \<^verbatim>\<open>Eigen::VectorXd\<close> are arrays addressed
  by an index tuple. They are functions from the index tuple to the stored number; the
  code only ever reads and writes entries inside the allocated shape.
\<close>

type_synonym array1 = "nat \<Rightarrow> real"
type_synonym array2 = "nat \<times> nat \<Rightarrow> real"
type_synonym array3 = "nat \<times> nat \<times> nat \<Rightarrow> real"

text \<open>
  The members of \<^verbatim>\<open>CylindricalCell\<close>. The constructor rejects a null material handle, so
  a constructed cell stores the materials themselves.
\<close>

record cell =
  cell_p :: array3
  cell_X :: array3
  cell_Y :: array2
  cell_Gamma :: "real list"
  cell_radii :: "real list"
  cell_vols :: "real list"
  cell_mats :: "material list"
  cell_ngroups :: nat
  cell_solved :: bool

text \<open>
  Every failure of the constructor is a \<^verbatim>\<open>ScarabeeException\<close>; the constructors of
  \<open>error\<close> stand for its seven messages, in the order of the checks.
\<close>

datatype error =
    Radii_mats_mismatch
  | Too_few_regions
  | Radii_not_sorted
  | Radii_not_positive
  | Nullptr_material
  | No_energy_group
  | Group_count_mismatch

text \<open>
  Modelled from the spec: \<^verbatim>\<open>utils/constants.hpp\<close>, which defines the constant \<^verbatim>\<open>PI\<close>, is
  not among the sources; the spec writes it as the number pi.
\<close>

definition PI :: real where
  "PI = pi"

text \<open>
  Modelled from the spec: \<^verbatim>\<open>cylindrical_cell.hpp\<close>, which defines \<^verbatim>\<open>nregions()\<close> and
  \<^verbatim>\<open>ngroups()\<close>, is not among the sources; the spec equates the region count with the
  radii count, and the constructor stores the group count in \<^verbatim>\<open>ngroups_\<close>.
\<close>

definition nregions :: "cell \<Rightarrow> nat" where
  "nregions c = length (cell_radii c)"

definition ngroups :: "cell \<Rightarrow> nat" where
  "ngroups c = cell_ngroups c"

subsection \<open>The constructor\<close>

text \<open>
  \<^verbatim>\<open>std::is_sorted\<close> with the default comparison: false exactly when some element is
  less than its predecessor.
\<close>

fun is_sorted :: "real list \<Rightarrow> bool" where
  "is_sorted (a # b # xs) = (if b < a then False else is_sorted (b # xs))"
| "is_sorted xs = True"

text \<open>The loop that fills \<^verbatim>\<open>vols_\<close> (lines 61 to 68): its body, then the loop.\<close>

definition vols_body :: "real list \<Rightarrow> nat \<Rightarrow> real list \<Rightarrow> real list" where
  "vols_body radii i vols =
     (let vols1 = vols[i := PI * radii ! i * radii ! i]
      in if i \<noteq> 0
         then vols1[i := vols1 ! i - PI * radii ! (i - 1) * radii ! (i - 1)]
         else vols1)"

definition calculate_vols :: "real list \<Rightarrow> real list" where
  "calculate_vols radii =
     fold (vols_body radii) [0..<length radii] (replicate (length radii) 0)"

definition CylindricalCell :: "real list \<Rightarrow> material option list \<Rightarrow> error + cell" where
  "CylindricalCell radii mats =
     (if length radii \<noteq> length mats then Inl Radii_mats_mismatch
      else if length radii < 2 then Inl Too_few_regions
      else if is_sorted radii = False then Inl Radii_not_sorted
      else if hd radii \<le> 0 then Inl Radii_not_positive
      else if list_ex (\<lambda>mat. mat = None) mats then Inl Nullptr_material
      else let ms = map the mats; ng = mat_ngroups (ms ! 0)
           in if ng = 0 then Inl No_energy_group
              else if list_ex (\<lambda>mat. mat_ngroups mat \<noteq> ng) ms then Inl Group_count_mismatch
              else Inr \<lparr>cell_p = (\<lambda>_. 0), cell_X = (\<lambda>_. 0), cell_Y = (\<lambda>_. 0),
                        cell_Gamma = [], cell_radii = radii,
                        cell_vols = calculate_vols radii, cell_mats = ms,
                        cell_ngroups = ng, cell_solved = False\<rparr>)"

subsection \<open>Functions of the repository that are not among the sources\<close>

text \<open>
  \<^verbatim>\<open>cylindrical_cell.cpp\<close> calls four functions whose code is absent: the Bickley
  function \<^verbatim>\<open>Ki3\<close> (only declared, in \<^verbatim>\<open>utils/math.hpp\<close>), the quadrature
  \<^verbatim>\<open>GaussKronrodQuadrature<5>::integrate\<close>, which returns the pair of the integral and an
  error estimate, Eigen's \<^verbatim>\<open>householderQr()\<close> with the \<^verbatim>\<open>solve(b)\<close> of the factorisation
  it returns, and the member \<^verbatim>\<open>S()\<close> of the cell. They are parameters of the model,
  collected in one record; every theorem holds for all values of them. A factorisation
  is the function that maps a right-hand side to the solution it returns; the first
  argument of \<open>householderQr\<close> is the dimension of the matrix.

  Modelled from the spec: \<^verbatim>\<open>S()\<close> takes no argument and is \<^verbatim>\<open>const\<close>; the spec calls it
  the outer cell surface measure, a fixed geometric constant for the whole cell. It is a
  function of the radii.
\<close>

record lib =
  Ki3 :: "real \<Rightarrow> real"
  gk_integrate :: "(real \<Rightarrow> real) \<Rightarrow> real \<Rightarrow> real \<Rightarrow> real \<times> real"
  householderQr :: "nat \<Rightarrow> array2 \<Rightarrow> array1 \<Rightarrow> array1"
  S :: "real list \<Rightarrow> real"

subsection \<open>\<^verbatim>\<open>calculate_S_ij\<close>\<close>

text \<open>
  The integrand (lines 137 to 168). The scratch vector \<^verbatim>\<open>x\<close> has \<^verbatim>\<open>j + 1 - k\<close> entries and
  is overwritten at every call. The loop over the segments carries the pair
  \<^verbatim>\<open>(tau_pls, tau_min)\<close>.
\<close>

definition x_coords :: "cell \<Rightarrow> nat \<Rightarrow> nat \<Rightarrow> real \<Rightarrow> real list" where
  "x_coords c k j y =
     (let y2 = y * y
      in map (\<lambda>n. sqrt (cell_radii c ! (k + n) * cell_radii c ! (k + n) - y2))
             [0..<j + 1 - k])"

definition tau_body ::
  "cell \<Rightarrow> nat \<Rightarrow> nat \<Rightarrow> nat \<Rightarrow> real list \<Rightarrow> nat \<Rightarrow> real \<times> real \<Rightarrow> real \<times> real" where
  "tau_body c k i g x s tau =
     (let t = (if s = 0 then x ! s else x ! s - x ! (s - 1));
          mat = cell_mats c ! (s + k);
          dtau = t * Etr mat g
      in if s + k \<le> i
         then (fst tau + 2 * dtau, snd tau)
         else (fst tau + dtau, snd tau + dtau))"

definition tau :: "cell \<Rightarrow> nat \<Rightarrow> nat \<Rightarrow> nat \<Rightarrow> nat \<Rightarrow> real \<Rightarrow> real \<times> real" where
  "tau c k i j g y =
     (let x = x_coords c k j y
      in fold (tau_body c k i g x) [0..<length x] (0, 0))"

definition integrand :: "lib \<Rightarrow> cell \<Rightarrow> nat \<Rightarrow> nat \<Rightarrow> nat \<Rightarrow> nat \<Rightarrow> real \<Rightarrow> real" where
  "integrand lib c k i j g y =
     (let (tau_pls, tau_min) = tau c k i j g y
      in Ki3 lib tau_pls - Ki3 lib tau_min)"

text \<open>The loop over the rings \<^verbatim>\<open>k = 0 .. i\<close> (lines 126 to 177), after the swap of line 116.\<close>

definition S_ij_body :: "lib \<Rightarrow> cell \<Rightarrow> nat \<Rightarrow> nat \<Rightarrow> nat \<Rightarrow> nat \<Rightarrow> real \<Rightarrow> real" where
  "S_ij_body lib c i j g k S_ij =
     (let Rmin = (if k = 0 then 0 else cell_radii c ! (k - 1));
          Rmax = cell_radii c ! k;
          integral = gk_integrate lib (integrand lib c k i j g) Rmin Rmax
      in S_ij + fst integral)"

definition calculate_S_ij :: "lib \<Rightarrow> cell \<Rightarrow> nat \<Rightarrow> nat \<Rightarrow> nat \<Rightarrow> real" where
  "calculate_S_ij lib c i0 j0 g =
     (let (i, j) = (if i0 > j0 then (j0, i0) else (i0, j0))
      in fold (S_ij_body lib c i j g) [0..<i + 1] 0)"

text \<open>
  The optical depths as the specification words them: over the shells \<open>s = k..j\<close>, a
  shell of index at most \<open>i\<close> contributes twice its weighted segment length to
  \<open>tau_plus\<close> and once to \<open>tau_minus\<close>, a shell of index above \<open>i\<close> once to each. The
  segment of shell \<open>s\<close> is the one the code measures: from the midline for the first
  shell, between consecutive circles afterwards.
\<close>

definition segment :: "cell \<Rightarrow> nat \<Rightarrow> real \<Rightarrow> nat \<Rightarrow> real" where
  "segment c k y s =
     (if s = k then sqrt (cell_radii c ! s * cell_radii c ! s - y * y)
      else sqrt (cell_radii c ! s * cell_radii c ! s - y * y)
           - sqrt (cell_radii c ! (s - 1) * cell_radii c ! (s - 1) - y * y))"

definition dtau_of :: "cell \<Rightarrow> nat \<Rightarrow> nat \<Rightarrow> real \<Rightarrow> nat \<Rightarrow> real" where
  "dtau_of c k g y s = segment c k y s * Etr (cell_mats c ! s) g"

definition tau_spec :: "cell \<Rightarrow> nat \<Rightarrow> nat \<Rightarrow> nat \<Rightarrow> nat \<Rightarrow> real \<Rightarrow> real \<times> real" where
  "tau_spec c k i j g y =
     (\<Sum>s = k..j. (if s \<le> i then 2 else 1) * dtau_of c k g y s,
      \<Sum>s = k..j. dtau_of c k g y s)"

subsection \<open>\<^verbatim>\<open>calculate_collision_probabilities\<close>\<close>

text \<open>The two loops that load \<^verbatim>\<open>S\<close> for one group (lines 87 to 94).\<close>

definition load_S_body :: "lib \<Rightarrow> cell \<Rightarrow> nat \<Rightarrow> nat \<Rightarrow> nat \<Rightarrow> array2 \<Rightarrow> array2" where
  "load_S_body lib c g j i S_arr =
     (let S1 = S_arr((i, j) := calculate_S_ij lib c i j g)
      in if j \<noteq> i then S1((j, i) := S1 (i, j)) else S1)"

definition load_S :: "lib \<Rightarrow> cell \<Rightarrow> nat \<Rightarrow> array2 \<Rightarrow> array2" where
  "load_S lib c g S_arr =
     fold (\<lambda>j. fold (load_S_body lib c g j) [0..<j + 1]) [0..<nregions c] S_arr"

text \<open>The two loops that load \<^verbatim>\<open>p_\<close> for one group (lines 97 to 108).\<close>

definition load_p_body :: "cell \<Rightarrow> nat \<Rightarrow> array2 \<Rightarrow> nat \<Rightarrow> nat \<Rightarrow> array3 \<Rightarrow> array3" where
  "load_p_body c g S_arr j i p =
     (let p1 = p((g, i, j) := 2 * S_arr (i, j));
          p2 = (if i > 0 \<and> j > 0
                then p1((g, i, j) := p1 (g, i, j) + 2 * S_arr (i - 1, j - 1)) else p1);
          p3 = (if i > 0 then p2((g, i, j) := p2 (g, i, j) + - 2 * S_arr (i - 1, j)) else p2);
          p4 = (if j > 0 then p3((g, i, j) := p3 (g, i, j) + - 2 * S_arr (i, j - 1)) else p3);
          p5 = (if i = j
                then p4((g, i, j) := p4 (g, i, j) + cell_vols c ! i * Etr (cell_mats c ! i) g)
                else p4)
      in if i \<noteq> j then p5((g, j, i) := p5 (g, i, j)) else p5)"

definition load_p :: "cell \<Rightarrow> nat \<Rightarrow> array2 \<Rightarrow> array3 \<Rightarrow> array3" where
  "load_p c g S_arr p =
     fold (\<lambda>j. fold (load_p_body c g S_arr j) [0..<j + 1]) [0..<nregions c] p"

text \<open>
  The loop over the groups carries \<^verbatim>\<open>p_\<close> and the scratch matrix \<^verbatim>\<open>S\<close>, which is
  filled with zeros at the end of every round. \<^verbatim>\<open>reallocate\<close> sets the shape of \<^verbatim>\<open>p_\<close>;
  every entry inside the shape is written afterwards.
\<close>

definition group_body :: "lib \<Rightarrow> cell \<Rightarrow> nat \<Rightarrow> array3 \<times> array2 \<Rightarrow> array3 \<times> array2" where
  "group_body lib c g st =
     (let S1 = load_S lib c g (snd st);
          p1 = load_p c g S1 (fst st)
      in (p1, (\<lambda>_. 0)))"

definition calculate_collision_probabilities :: "lib \<Rightarrow> cell \<Rightarrow> cell" where
  "calculate_collision_probabilities lib c =
     (let st = fold (group_body lib c) [0..<ngroups c] (cell_p c, (\<lambda>_. 0))
      in c\<lparr>cell_p := fst st\<rparr>)"

subsection \<open>\<^verbatim>\<open>solve_systems\<close> and \<^verbatim>\<open>solve\<close>\<close>

text \<open>\<^verbatim>\<open>std::vector::resize(n, v)\<close>: keeps the first \<open>n\<close> entries and appends \<open>v\<close> up to length \<open>n\<close>.\<close>

definition resize :: "nat \<Rightarrow> real \<Rightarrow> real list \<Rightarrow> real list" where
  "resize n v xs = take n xs @ replicate (n - length xs) v"

text \<open>The matrix of group \<open>g\<close> (lines 195 to 209); a fresh \<^verbatim>\<open>MatrixXd\<close> is written everywhere.\<close>

definition load_M_body :: "cell \<Rightarrow> nat \<Rightarrow> nat \<Rightarrow> nat \<Rightarrow> array2 \<Rightarrow> array2" where
  "load_M_body c g i j M =
     (let mat = cell_mats c ! j;
          Etr_j = Etr mat g;
          Es_tr_j = Es_tr mat g;
          c_j = Es_tr_j / Etr_j;
          M1 = M((i, j) := - c_j * cell_p c (g, j, i))
      in if j = i then M1((i, j) := M1 (i, j) + Etr mat g * cell_vols c ! i) else M1)"

definition load_M :: "cell \<Rightarrow> nat \<Rightarrow> array2" where
  "load_M c g =
     fold (\<lambda>i. fold (load_M_body c g i) [0..<nregions c]) [0..<nregions c] (\<lambda>_. 0)"

text \<open>The right-hand side for the source region \<open>k\<close> (lines 218 to 222).\<close>

definition load_b_X :: "cell \<Rightarrow> nat \<Rightarrow> nat \<Rightarrow> array1" where
  "load_b_X c g k =
     (let Etr_k = Etr (cell_mats c ! k) g
      in fold (\<lambda>i b. b(i := cell_p c (g, k, i) / Etr_k)) [0..<nregions c] (\<lambda>_. 0))"

text \<open>One round of the loop over \<open>k\<close> (lines 216 to 231).\<close>

definition solve_X_body :: "cell \<Rightarrow> nat \<Rightarrow> (array1 \<Rightarrow> array1) \<Rightarrow> nat \<Rightarrow> array3 \<Rightarrow> array3" where
  "solve_X_body c g solver k X =
     (let b = load_b_X c g k;
          X_k = solver b
      in fold (\<lambda>i X. X((g, i, k) := X_k i)) [0..<nregions c] X)"

text \<open>The right-hand side for \<open>Y\<close> (lines 234 to 246).\<close>

definition load_b_Y :: "lib \<Rightarrow> cell \<Rightarrow> nat \<Rightarrow> array1" where
  "load_b_Y lib c g =
     (let coeff = 4 / S lib (cell_radii c)
      in fold (\<lambda>i b.
                let Etr_i = Etr (cell_mats c ! i) g;
                    Vol_i = cell_vols c ! i;
                    sum_p = fold (\<lambda>j sum_p. sum_p + cell_p c (g, i, j)) [0..<nregions c] 0
                in b(i := coeff * (Etr_i * Vol_i - sum_p)))
              [0..<nregions c] (\<lambda>_. 0))"

text \<open>One round of the loop over the groups (lines 193 to 256).\<close>

definition Gamma_body :: "nat \<Rightarrow> nat \<Rightarrow> cell \<Rightarrow> cell" where
  "Gamma_body g i c =
     c\<lparr>cell_Gamma := (cell_Gamma c)
          [g := cell_Gamma c ! g + Er_tr (cell_mats c ! i) g * cell_vols c ! i * cell_Y c (g, i)]\<rparr>"

definition solve_group :: "lib \<Rightarrow> nat \<Rightarrow> cell \<Rightarrow> cell" where
  "solve_group lib g c =
     (let M = load_M c g;
          solver = householderQr lib (nregions c) M;
          c1 = c\<lparr>cell_X := fold (solve_X_body c g solver) [0..<nregions c] (cell_X c)\<rparr>;
          b = load_b_Y lib c1 g;
          Y_i = solver b;
          c2 = c1\<lparr>cell_Y := fold (\<lambda>i Y. Y((g, i) := Y_i i)) [0..<nregions c1] (cell_Y c1)\<rparr>
      in fold (Gamma_body g) [0..<nregions c2] c2)"

definition solve_systems :: "lib \<Rightarrow> cell \<Rightarrow> cell" where
  "solve_systems lib c =
     (let c1 = c\<lparr>cell_X := (\<lambda>_. 0), cell_Y := (\<lambda>_. 0),
                 cell_Gamma := resize (ngroups c) 0 (cell_Gamma c)\<rparr>;
          c2 = fold (solve_group lib) [0..<ngroups c1] c1
      in c2\<lparr>cell_solved := True\<rparr>)"

definition solve :: "lib \<Rightarrow> cell \<Rightarrow> cell" where
  "solve lib c = solve_systems lib (calculate_collision_probabilities lib c)"

subsection \<open>Values the loops assign, and what it is for a matrix to be singular\<close>

text \<open>
  The number that one round of the loops of lines 97 to 108 leaves in \<^verbatim>\<open>p_(g, i, j)\<close>,
  and the number that one round of the loops of lines 196 to 209 leaves in \<^verbatim>\<open>M(i, j)\<close>.
\<close>

definition P_entry :: "cell \<Rightarrow> nat \<Rightarrow> array2 \<Rightarrow> nat \<Rightarrow> nat \<Rightarrow> real" where
  "P_entry c g S_arr i j =
     2 * S_arr (i, j)
     + (if i > 0 \<and> j > 0 then 2 * S_arr (i - 1, j - 1) else 0)
     - (if i > 0 then 2 * S_arr (i - 1, j) else 0)
     - (if j > 0 then 2 * S_arr (i, j - 1) else 0)
     + (if i = j then cell_vols c ! i * Etr (cell_mats c ! i) g else 0)"

definition M_entry :: "cell \<Rightarrow> nat \<Rightarrow> nat \<Rightarrow> nat \<Rightarrow> real" where
  "M_entry c g i j =
     - (Es_tr (cell_mats c ! j) g / Etr (cell_mats c ! j) g) * cell_p c (g, j, i)
     + (if j = i then Etr (cell_mats c ! j) g * cell_vols c ! i else 0)"

text \<open>
  An \<open>n \<times> n\<close> matrix is singular when it maps some vector that is not zero to zero.
\<close>

definition mat_vec :: "nat \<Rightarrow> array2 \<Rightarrow> array1 \<Rightarrow> array1" where
  "mat_vec n M x i = (\<Sum>j<n. M (i, j) * x j)"

definition singular :: "nat \<Rightarrow> array2 \<Rightarrow> bool" where
  "singular n M = (\<exists>x. (\<exists>j<n. x j \<noteq> 0) \<and> (\<forall>i<n. mat_vec n M x i = 0))"

text \<open>
  What it is for a factorisation of \<open>M\<close> to solve exactly: applied to a right-hand side
  it returns a vector that \<open>M\<close> maps back to that right-hand side.
\<close>

definition solves_exactly :: "nat \<Rightarrow> array2 \<Rightarrow> (array1 \<Rightarrow> array1) \<Rightarrow> bool" where
  "solves_exactly n M solver = (\<forall>b. \<forall>i<n. mat_vec n M (solver b) i = b i)"

subsection \<open>Example cells\<close>

text \<open>
  One group, transport cross section 1, no scattering, removal cross section 1; a cell
  of two regions with radii 1 and 2, and a cell whose two radii are both 1.
\<close>

definition example_mat :: material where
  "example_mat = \<lparr>mat_ngroups = 1, Etr = (\<lambda>_. 1), Es_tr = (\<lambda>_. 0), Er_tr = (\<lambda>_. 1)\<rparr>"

definition two_region_cell :: cell where
  "two_region_cell =
     \<lparr>cell_p = (\<lambda>_. 0), cell_X = (\<lambda>_. 0), cell_Y = (\<lambda>_. 0), cell_Gamma = [],
      cell_radii = [1, 2], cell_vols = calculate_vols [1, 2],
      cell_mats = [example_mat, example_mat], cell_ngroups = 1, cell_solved = False\<rparr>"

definition equal_radii_cell :: cell where
  "equal_radii_cell =
     \<lparr>cell_p = (\<lambda>_. 0), cell_X = (\<lambda>_. 0), cell_Y = (\<lambda>_. 0), cell_Gamma = [],
      cell_radii = [1, 1], cell_vols = calculate_vols [1, 1],
      cell_mats = [example_mat, example_mat], cell_ngroups = 1, cell_solved = False\<rparr>"

text \<open>
  One value of the parameters, for the examples: a midpoint rule for the quadrature and
  a solver for diagonal matrices.
\<close>

definition example_lib :: lib where
  "example_lib =
     \<lparr>Ki3 = (\<lambda>x. 1 / (1 + x)),
      gk_integrate = (\<lambda>f a b. ((b - a) * f ((a + b) / 2), 0)),
      householderQr = (\<lambda>n M b i. b i / M (i, i)),
      S = (\<lambda>radii. 2 * pi * last radii)\<rparr>"

subsection \<open>The constructor on doubles that may be NaN\<close>

text \<open>
  The model above reads \<^verbatim>\<open>double\<close> as \<^typ>\<open>real\<close>, which has no NaN. For the checks of the
  constructor the difference matters, because every comparison with a NaN is false. Here
  a double is a real number or NaN. An operation with a NaN operand gives NaN; on
  numbers it is exact. Rounding, overflow and the infinities are left out.
\<close>

datatype double = Finite real | NaN

text \<open>The comparisons \<^verbatim>\<open><\<close> and \<^verbatim>\<open><=\<close>, the product and the difference of two doubles.\<close>

fun double_less :: "double \<Rightarrow> double \<Rightarrow> bool" where
  "double_less (Finite a) (Finite b) = (a < b)"
| "double_less a b = False"

fun double_le :: "double \<Rightarrow> double \<Rightarrow> bool" where
  "double_le (Finite a) (Finite b) = (a \<le> b)"
| "double_le a b = False"

fun double_mult :: "double \<Rightarrow> double \<Rightarrow> double" where
  "double_mult (Finite a) (Finite b) = Finite (a * b)"
| "double_mult a b = NaN"

fun double_minus :: "double \<Rightarrow> double \<Rightarrow> double" where
  "double_minus (Finite a) (Finite b) = Finite (a - b)"
| "double_minus a b = NaN"

text \<open>The members of the cell, and the constructor as above with these doubles.\<close>

record cell_double =
  dbl_p :: "nat \<times> nat \<times> nat \<Rightarrow> double"
  dbl_X :: "nat \<times> nat \<times> nat \<Rightarrow> double"
  dbl_Y :: "nat \<times> nat \<Rightarrow> double"
  dbl_Gamma :: "double list"
  dbl_radii :: "double list"
  dbl_vols :: "double list"
  dbl_mats :: "material list"
  dbl_ngroups :: nat
  dbl_solved :: bool

fun is_sorted_double :: "double list \<Rightarrow> bool" where
  "is_sorted_double (a # b # xs) =
     (if double_less b a then False else is_sorted_double (b # xs))"
| "is_sorted_double xs = True"

definition vols_body_double :: "double list \<Rightarrow> nat \<Rightarrow> double list \<Rightarrow> double list" where
  "vols_body_double radii i vols =
     (let vols1 = vols[i := double_mult (double_mult (Finite PI) (radii ! i)) (radii ! i)]
      in if i \<noteq> 0
         then vols1[i := double_minus (vols1 ! i)
                (double_mult (double_mult (Finite PI) (radii ! (i - 1))) (radii ! (i - 1)))]
         else vols1)"

definition calculate_vols_double :: "double list \<Rightarrow> double list" where
  "calculate_vols_double radii =
     fold (vols_body_double radii) [0..<length radii] (replicate (length radii) (Finite 0))"

definition CylindricalCell_double ::
  "double list \<Rightarrow> material option list \<Rightarrow> error + cell_double" where
  "CylindricalCell_double radii mats =
     (if length radii \<noteq> length mats then Inl Radii_mats_mismatch
      else if length radii < 2 then Inl Too_few_regions
      else if is_sorted_double radii = False then Inl Radii_not_sorted
      else if double_le (hd radii) (Finite 0) then Inl Radii_not_positive
      else if list_ex (\<lambda>mat. mat = None) mats then Inl Nullptr_material
      else let ms = map the mats; ng = mat_ngroups (ms ! 0)
           in if ng = 0 then Inl No_energy_group
              else if list_ex (\<lambda>mat. mat_ngroups mat \<noteq> ng) ms then Inl Group_count_mismatch
              else Inr \<lparr>dbl_p = (\<lambda>_. Finite 0), dbl_X = (\<lambda>_. Finite 0),
                        dbl_Y = (\<lambda>_. Finite 0), dbl_Gamma = [], dbl_radii = radii,
                        dbl_vols = calculate_vols_double radii, dbl_mats = ms,
                        dbl_ngroups = ng, dbl_solved = False\<rparr>)"

section \<open>The constructor: checks and volumes\<close>

lemma is_sorted_iff_sorted: "is_sorted xs = sorted xs"
  by (induction xs rule: is_sorted.induct) (auto simp: not_less)

lemma vols_body_eq:
  "i < length vols \<Longrightarrow>
   vols_body radii i vols =
     vols[i := PI * radii ! i * radii ! i -
               (if i = 0 then 0 else PI * radii ! (i - 1) * radii ! (i - 1))]"
  by (simp add: vols_body_def Let_def)

lemma length_vols_body: "length (vols_body radii i vols) = length vols"
  by (simp add: vols_body_def Let_def)

lemma length_fold_vols_body: "length (fold (vols_body radii) ns vs) = length vs"
  by (induction ns arbitrary: vs) (simp_all add: length_vols_body)

lemma fold_vols_body_nth:
  "m \<le> length vs \<Longrightarrow> i < length vs \<Longrightarrow>
   fold (vols_body radii) [0..<m] vs ! i =
   (if i < m
    then PI * radii ! i * radii ! i -
         (if i = 0 then 0 else PI * radii ! (i - 1) * radii ! (i - 1))
    else vs ! i)"
proof (induction m)
  case 0
  then show ?case by simp
next
  case (Suc m)
  have len: "m < length (fold (vols_body radii) [0..<m] vs)"
    using Suc.prems by (simp add: length_fold_vols_body)
  show ?case
    using Suc len by (auto simp: vols_body_eq nth_list_update length_fold_vols_body)
qed

lemma length_calculate_vols: "length (calculate_vols radii) = length radii"
  by (simp add: calculate_vols_def length_fold_vols_body)

lemma calculate_vols_nth:
  "i < length radii \<Longrightarrow>
   calculate_vols radii ! i =
     PI * radii ! i * radii ! i - (if i = 0 then 0 else PI * radii ! (i - 1) * radii ! (i - 1))"
  unfolding calculate_vols_def by (subst fold_vols_body_nth) auto

lemma sum_vols_telescope:
  "m \<le> length radii \<Longrightarrow>
   (\<Sum>i<m. calculate_vols radii ! i) =
     (if m = 0 then 0 else PI * radii ! (m - 1) * radii ! (m - 1))"
proof (induction m)
  case 0
  then show ?case by simp
next
  case (Suc m)
  then show ?case by (cases m) (simp_all add: calculate_vols_nth Suc_le_eq)
qed

lemma sum_list_calculate_vols:
  assumes ne: "radii \<noteq> []"
  shows "sum_list (calculate_vols radii) = PI * last radii * last radii"
proof -
  have "sum_list (calculate_vols radii) = (\<Sum>i<length radii. calculate_vols radii ! i)"
    by (simp add: sum_list_sum_nth length_calculate_vols atLeast0LessThan)
  also have "\<dots> = PI * radii ! (length radii - 1) * radii ! (length radii - 1)"
    using ne by (simp add: sum_vols_telescope)
  finally show ?thesis using ne by (simp add: last_conv_nth)
qed

lemma CylindricalCell_InrD:
  assumes "CylindricalCell radii mats = Inr c"
  shows "length radii = length mats" "2 \<le> length radii" "sorted radii" "0 < hd radii"
    "cell_radii c = radii" "cell_vols c = calculate_vols radii" "cell_Gamma c = []"
    "cell_mats c = map the mats" "cell_solved c = False"
    "cell_ngroups c = mat_ngroups (map the mats ! 0)" "0 < cell_ngroups c"
  using assms
  by (auto simp: CylindricalCell_def Let_def is_sorted_iff_sorted not_le split: if_splits)

lemma two_region_cell_constructed:
  "CylindricalCell [1, 2] [Some example_mat, Some example_mat] = Inr two_region_cell"
  by (simp add: CylindricalCell_def two_region_cell_def example_mat_def)

lemma equal_radii_cell_constructed:
  "CylindricalCell [1, 1] [Some example_mat, Some example_mat] = Inr equal_radii_cell"
  by (simp add: CylindricalCell_def equal_radii_cell_def example_mat_def)

text \<open>
  Claim C4, as stated, fails: \<^verbatim>\<open>std::is_sorted\<close> accepts equal neighbours, so the radii
  \<open>[1, 1]\<close> pass every check and the cell is constructed.
\<close>

theorem equal_radii_accepted:
  "[1, 1 :: real] ! 0 = [1, 1] ! 1 \<and>
   CylindricalCell [1, 1] [Some example_mat, Some example_mat] = Inr equal_radii_cell"
  by (simp add: equal_radii_cell_constructed)

text \<open>
  Claim C4, amended: construction fails with a configuration error whenever some radius
  is smaller than its predecessor. The error is the one of the first check that fails:
  the size mismatch if the two lists differ in length, otherwise "Radii are not sorted."
\<close>

theorem descending_radii_rejected:
  assumes "Suc n < length radii" "radii ! Suc n < radii ! n"
  shows "CylindricalCell radii mats =
           Inl (if length radii \<noteq> length mats then Radii_mats_mismatch else Radii_not_sorted)"
proof -
  have "\<not> sorted radii"
    using assms by (auto simp: sorted_iff_nth_Suc not_le)
  moreover have "\<not> length radii < 2"
    using assms(1) by simp
  ultimately show ?thesis
    by (simp add: CylindricalCell_def is_sorted_iff_sorted)
qed

theorem descending_radii_rejected_witness:
  "Suc 0 < length [2, 1 :: real] \<and> [2, 1 :: real] ! Suc 0 < [2, 1] ! 0 \<and>
   CylindricalCell [2, 1] [Some example_mat, Some example_mat] = Inl Radii_not_sorted"
  using descending_radii_rejected [of 0 "[2, 1]" "[Some example_mat, Some example_mat]"]
  by simp

text \<open>
  Claim C9: in a constructed cell the volume of region \<open>i\<close> is
  \<open>pi * (R\<^sub>i\<^sup>2 - R\<^bsub>i-1\<^esub>\<^sup>2)\<close>, with nothing subtracted for \<open>i = 0\<close>, there is one volume
  per region, and the volumes add up to the area \<open>pi * R\<^bsub>N-1\<^esub>\<^sup>2\<close> of the outer disk.
\<close>

theorem volumes_of_constructed_cell:
  assumes "CylindricalCell radii mats = Inr c" "i < nregions c"
  shows "cell_vols c ! i =
           pi * ((cell_radii c ! i)\<^sup>2 - (if i = 0 then 0 else (cell_radii c ! (i - 1))\<^sup>2)) \<and>
         length (cell_vols c) = nregions c \<and>
         sum_list (cell_vols c) = pi * (last (cell_radii c))\<^sup>2"
proof -
  note D = CylindricalCell_InrD[OF assms(1)]
  have i: "i < length radii" using assms(2) D(5) by (simp add: nregions_def)
  have ne: "radii \<noteq> []" using D(2) by auto
  have "cell_vols c ! i =
           pi * ((cell_radii c ! i)\<^sup>2 - (if i = 0 then 0 else (cell_radii c ! (i - 1))\<^sup>2))"
    using i by (simp add: D(5,6) calculate_vols_nth PI_def power2_eq_square algebra_simps)
  moreover have "length (cell_vols c) = nregions c"
    by (simp add: D(5,6) length_calculate_vols nregions_def)
  moreover have "sum_list (cell_vols c) = pi * (last (cell_radii c))\<^sup>2"
    using ne by (simp add: D(5,6) sum_list_calculate_vols PI_def power2_eq_square)
  ultimately show ?thesis by blast
qed

theorem volumes_of_constructed_cell_witness:
  "CylindricalCell [1, 2] [Some example_mat, Some example_mat] = Inr two_region_cell \<and>
   1 < nregions two_region_cell \<and>
   cell_vols two_region_cell ! 1 = pi * (2\<^sup>2 - 1\<^sup>2) \<and>
   length (cell_vols two_region_cell) = 2 \<and>
   sum_list (cell_vols two_region_cell) = pi * 2\<^sup>2"
proof -
  have n: "1 < nregions two_region_cell"
    by (simp add: nregions_def two_region_cell_def)
  have r: "cell_radii two_region_cell = [1, 2]" "nregions two_region_cell = 2"
    by (simp_all add: nregions_def two_region_cell_def)
  show ?thesis
    using volumes_of_constructed_cell [OF two_region_cell_constructed n] n
    by (simp add: two_region_cell_constructed r)
qed

lemma sorted_hd_pos: "sorted xs \<Longrightarrow> 0 < hd xs \<Longrightarrow> x \<in> set xs \<Longrightarrow> (0::real) < x"
  by (cases xs) auto

text \<open>
  When the radii are real numbers, the check of the first radius is enough: the radii
  are sorted, so every radius of a constructed cell is positive and every volume is
  non-negative.
\<close>

lemma radii_positive_volumes_nonnegative:
  assumes "CylindricalCell radii mats = Inr c"
  shows "list_all (\<lambda>r. 0 < r) (cell_radii c) \<and> list_all (\<lambda>v. 0 \<le> v) (cell_vols c)"
proof -
  note D = CylindricalCell_InrD[OF assms]
  have pos: "0 < r" if "r \<in> set radii" for r
    using D(3,4) that by (rule sorted_hd_pos)
  have vol: "0 \<le> calculate_vols radii ! i" if i: "i < length radii" for i
  proof (cases i)
    case 0
    then show ?thesis using i by (simp add: calculate_vols_nth PI_def mult.assoc)
  next
    case (Suc m)
    have le: "radii ! m \<le> radii ! Suc m"
      using D(3) i Suc by (simp add: sorted_iff_nth_Suc)
    have "0 < radii ! m" using i Suc by (intro pos) simp
    then have "radii ! m * radii ! m \<le> radii ! Suc m * radii ! Suc m"
      using le by (intro mult_mono) simp_all
    then have "pi * (radii ! m * radii ! m) \<le> pi * (radii ! Suc m * radii ! Suc m)"
      by (intro mult_left_mono) simp_all
    then show ?thesis using i Suc by (simp add: calculate_vols_nth PI_def mult.assoc)
  qed
  have "list_all (\<lambda>r. 0 < r) (cell_radii c)"
    using pos by (simp add: D(5) list_all_iff)
  moreover have "list_all (\<lambda>v. 0 \<le> v) (cell_vols c)"
    using vol by (auto simp: D(6) list_all_length length_calculate_vols)
  ultimately show ?thesis by blast
qed

lemma radii_positive_volumes_nonnegative_witness:
  "CylindricalCell [1, 2] [Some example_mat, Some example_mat] = Inr two_region_cell \<and>
   list_all (\<lambda>r. 0 < r) [1, 2 :: real] \<and>
   list_all (\<lambda>v. 0 \<le> v) (cell_vols two_region_cell)"
  using radii_positive_volumes_nonnegative [OF two_region_cell_constructed]
  by (simp add: two_region_cell_constructed two_region_cell_def)

subsection \<open>The checks on doubles\<close>

text \<open>On radii that are numbers the constructor on doubles is the constructor above.\<close>

lemma is_sorted_double_Finite: "is_sorted_double (map Finite xs) = is_sorted xs"
  by (induction xs rule: is_sorted.induct) simp_all

lemma vols_body_double_Finite:
  assumes "i < length radii" "length vs = length radii"
  shows "vols_body_double (map Finite radii) i (map Finite vs) =
         map Finite (vols_body radii i vs)"
  using assms by (simp add: vols_body_double_def vols_body_def Let_def map_update)

lemma fold_vols_body_double_Finite:
  assumes "m \<le> length radii" "length vs = length radii"
  shows "fold (vols_body_double (map Finite radii)) [0..<m] (map Finite vs) =
         map Finite (fold (vols_body radii) [0..<m] vs)"
  using assms(1)
proof (induction m)
  case 0
  then show ?case by simp
next
  case (Suc m)
  have len: "length (fold (vols_body radii) [0..<m] vs) = length radii"
    by (simp add: length_fold_vols_body assms(2))
  show ?case
    using Suc by (simp add: vols_body_double_Finite len)
qed

lemma calculate_vols_double_Finite:
  "calculate_vols_double (map Finite radii) = map Finite (calculate_vols radii)"
  using fold_vols_body_double_Finite[of "length radii" radii "replicate (length radii) 0"]
  by (simp add: calculate_vols_double_def calculate_vols_def)

lemma CylindricalCell_double_Finite:
  "CylindricalCell_double (map Finite radii) mats =
     (case CylindricalCell radii mats of
        Inl e \<Rightarrow> Inl e
      | Inr c \<Rightarrow>
          Inr \<lparr>dbl_p = (\<lambda>_. Finite 0), dbl_X = (\<lambda>_. Finite 0), dbl_Y = (\<lambda>_. Finite 0),
               dbl_Gamma = [], dbl_radii = map Finite (cell_radii c),
               dbl_vols = map Finite (cell_vols c), dbl_mats = cell_mats c,
               dbl_ngroups = cell_ngroups c, dbl_solved = cell_solved c\<rparr>)"
proof (cases radii)
  case Nil
  then show ?thesis
    by (simp add: CylindricalCell_double_def CylindricalCell_def)
next
  case (Cons r rs)
  then have hd: "hd (map Finite radii) = Finite (hd radii)" by simp
  show ?thesis
    unfolding CylindricalCell_double_def CylindricalCell_def hd is_sorted_double_Finite
      calculate_vols_double_Finite
    by (simp add: Let_def)
qed

text \<open>
  Claim C10 fails on the code. The message of the fourth check says that all radii must
  be \<open>> 0\<close>; the check looks at the first radius only and relies on the radii being sorted.
  Every comparison with a NaN is false. For the radii \<open>{NaN, -5}\<close>, \<^verbatim>\<open>std::is_sorted\<close>
  finds no element less than its predecessor and \<^verbatim>\<open>radii_.front() <= 0.\<close> is false, so
  the cell is constructed: its first radius is NaN, its second radius is negative and
  both volumes are NaN.
\<close>

theorem nan_radius_accepted:
  "CylindricalCell_double [NaN, Finite (- 5)] [Some example_mat, Some example_mat] =
     Inr \<lparr>dbl_p = (\<lambda>_. Finite 0), dbl_X = (\<lambda>_. Finite 0), dbl_Y = (\<lambda>_. Finite 0),
          dbl_Gamma = [], dbl_radii = [NaN, Finite (- 5)], dbl_vols = [NaN, NaN],
          dbl_mats = [example_mat, example_mat], dbl_ngroups = 1, dbl_solved = False\<rparr> \<and>
   double_less (Finite 0) NaN = False \<and>
   double_less (Finite 0) (Finite (- 5)) = False"
  by (simp add: CylindricalCell_double_def calculate_vols_double_def vols_body_double_def
      example_mat_def Let_def upt_rec)

section \<open>The optical depths of the integrand\<close>

lemma fold_tau_body:
  "fold (tau_body c k i g x) [0..<m] (a, b) =
     (a + (\<Sum>s<m. (if s + k \<le> i then 2 else 1) *
              ((if s = 0 then x ! s else x ! s - x ! (s - 1)) * Etr (cell_mats c ! (s + k)) g)),
      b + (\<Sum>s<m. (if s + k \<le> i then 0 else 1) *
              ((if s = 0 then x ! s else x ! s - x ! (s - 1)) * Etr (cell_mats c ! (s + k)) g)))"
  by (induction m) (simp_all add: tau_body_def Let_def)

lemma length_x_coords: "length (x_coords c k j y) = j + 1 - k"
  by (simp add: x_coords_def Let_def)

lemma x_coords_nth:
  "n < j + 1 - k \<Longrightarrow>
   x_coords c k j y ! n = sqrt (cell_radii c ! (k + n) * cell_radii c ! (k + n) - y * y)"
  by (simp add: x_coords_def Let_def)

lemma x_coords_dtau:
  assumes "s < j + 1 - k"
  shows "(if s = 0 then x_coords c k j y ! s else x_coords c k j y ! s - x_coords c k j y ! (s - 1))
           * Etr (cell_mats c ! (s + k)) g = dtau_of c k g y (k + s)"
  using assms by (cases s) (simp_all add: x_coords_nth dtau_of_def segment_def add.commute)

lemma sum_shift_shells:
  fixes f :: "nat \<Rightarrow> real"
  assumes "k \<le> j"
  shows "(\<Sum>s<j + 1 - k. f (k + s)) = (\<Sum>s = k..j. f s)"
proof -
  have "(\<Sum>s = k..j. f s) = (\<Sum>s = 0 + k..(j - k) + k. f s)"
    using assms by simp
  also have "\<dots> = (\<Sum>s = 0..j - k. f (s + k))"
    by (rule sum.shift_bounds_cl_nat_ivl)
  also have "\<dots> = (\<Sum>s<j + 1 - k. f (k + s))"
    using assms by (simp add: atLeast0AtMost lessThan_Suc_atMost Suc_diff_le add.commute)
  finally show ?thesis by simp
qed

lemma tau_sums:
  assumes "k \<le> j"
  shows "tau c k i j g y =
     (\<Sum>s = k..j. (if s \<le> i then 2 else 1) * dtau_of c k g y s,
      \<Sum>s = k..j. (if s \<le> i then 0 else 1) * dtau_of c k g y s)"
proof -
  let ?x = "x_coords c k j y"
  let ?d = "\<lambda>s. (if s = 0 then ?x ! s else ?x ! s - ?x ! (s - 1)) * Etr (cell_mats c ! (s + k)) g"
  have d: "?d s = dtau_of c k g y (k + s)" if "s < j + 1 - k" for s
    using that by (rule x_coords_dtau)
  have 1: "(\<Sum>s<j + 1 - k. (if s + k \<le> i then 2 else 1) * ?d s) =
           (\<Sum>s<j + 1 - k. (if k + s \<le> i then 2 else 1) * dtau_of c k g y (k + s))"
    by (rule sum.cong) (simp_all add: d add.commute)
  have 2: "(\<Sum>s<j + 1 - k. (if s + k \<le> i then 0 else 1) * ?d s) =
           (\<Sum>s<j + 1 - k. (if k + s \<le> i then 0 else 1) * dtau_of c k g y (k + s))"
    by (rule sum.cong) (simp_all add: d add.commute)
  have "tau c k i j g y = fold (tau_body c k i g ?x) [0..<j + 1 - k] (0, 0)"
    by (simp add: tau_def Let_def length_x_coords)
  also have "\<dots> = (\<Sum>s<j + 1 - k. (if s + k \<le> i then 2 else 1) * ?d s,
                     \<Sum>s<j + 1 - k. (if s + k \<le> i then 0 else 1) * ?d s)"
    by (simp add: fold_tau_body)
  also have "\<dots> = (\<Sum>s = k..j. (if s \<le> i then 2 else 1) * dtau_of c k g y s,
                     \<Sum>s = k..j. (if s \<le> i then 0 else 1) * dtau_of c k g y s)"
    unfolding 1 2
    using sum_shift_shells[OF assms, of "\<lambda>s. (if s \<le> i then 2 else 1) * dtau_of c k g y s"]
          sum_shift_shells[OF assms, of "\<lambda>s. (if s \<le> i then 0 else 1) * dtau_of c k g y s"]
    by simp
  finally show ?thesis .
qed

text \<open>
  Claim C1, as stated, fails. For the cell with radii 1 and 2 and transport cross
  section 1, the pair \<open>i = 0\<close>, \<open>j = 1\<close>, the ring \<open>k = 0\<close> and the offset \<open>y = 0\<close>, both
  segments have length 1. The code gives \<open>tau_pls = 2 + 1\<close> and \<open>tau_min = 1\<close>: shell 0,
  whose index is at most \<open>i\<close>, adds nothing to \<open>tau_min\<close>. The claim's wording gives
  \<open>tau_minus = 1 + 1\<close>.
\<close>

theorem tau_differs_from_spec:
  "tau two_region_cell 0 0 1 0 0 = (3, 1) \<and>
   tau_spec two_region_cell 0 0 1 0 0 = (3, 2) \<and>
   tau two_region_cell 0 0 1 0 0 \<noteq> tau_spec two_region_cell 0 0 1 0 0"
proof -
  have 1: "tau two_region_cell 0 0 1 0 0 = (3, 1)"
    by (simp add: tau_def x_coords_def tau_body_def two_region_cell_def example_mat_def
        Let_def upt_rec)
  have 2: "tau_spec two_region_cell 0 0 1 0 0 = (3, 2)"
    by (simp add: tau_spec_def two_region_cell_def dtau_of_def segment_def example_mat_def
        atLeastAtMost_upt)
  show ?thesis using 1 2 by simp
qed

text \<open>
  Claim C1, amended: for a region pair \<open>i \<le> j\<close>, a group \<open>g\<close>, a ring \<open>k \<le> i\<close> and an
  offset \<open>y\<close>, the optical depths fed to the \<open>Ki3\<close> difference are sums over the shells
  \<open>s = k..j\<close> of the segment lengths weighted by the transport cross section of the
  shell for group \<open>g\<close>; a shell of index at most \<open>i\<close> contributes twice its weighted
  segment length to \<open>tau_pls\<close> and nothing to \<open>tau_min\<close>, a shell of index above \<open>i\<close>
  contributes once to each.
\<close>

theorem tau_accumulation:
  assumes "CylindricalCell radii mats = Inr c" "k \<le> i" "i \<le> j" "j < nregions c"
  shows "tau c k i j g y =
           (\<Sum>s = k..j. (if s \<le> i then 2 else 1) * dtau_of c k g y s,
            \<Sum>s = k..j. (if s \<le> i then 0 else 1) * dtau_of c k g y s) \<and>
         integrand lib c k i j g y =
           Ki3 lib (\<Sum>s = k..j. (if s \<le> i then 2 else 1) * dtau_of c k g y s)
           - Ki3 lib (\<Sum>s = k..j. (if s \<le> i then 0 else 1) * dtau_of c k g y s)"
proof -
  have kj: "k \<le> j" using assms(2,3) by simp
  show ?thesis by (simp add: integrand_def tau_sums[OF kj])
qed

theorem tau_accumulation_witness:
  "CylindricalCell [1, 2] [Some example_mat, Some example_mat] = Inr two_region_cell \<and>
   (0::nat) \<le> 1 \<and> (1::nat) \<le> 1 \<and> 1 < nregions two_region_cell \<and>
   tau two_region_cell 0 1 1 0 0 = (4, 0)"
proof -
  have n: "1 < nregions two_region_cell"
    by (simp add: nregions_def two_region_cell_def)
  have "tau two_region_cell 0 1 1 0 0 =
          (\<Sum>s = 0..1. (if s \<le> 1 then 2 else 1) * dtau_of two_region_cell 0 0 0 s,
           \<Sum>s = 0..1. (if s \<le> 1 then 0 else 1) * dtau_of two_region_cell 0 0 0 s)"
    using tau_accumulation [OF two_region_cell_constructed _ _ n, of 0 1 0 0] by simp
  then have "tau two_region_cell 0 1 1 0 0 = (4, 0)"
    by (simp add: two_region_cell_def dtau_of_def segment_def example_mat_def
        atLeastAtMost_upt)
  then show ?thesis
    using two_region_cell_constructed n by simp
qed

section \<open>The loops of \<^verbatim>\<open>calculate_collision_probabilities\<close>\<close>

lemma calculate_S_ij_swap: "calculate_S_ij lib c j i g = calculate_S_ij lib c i j g"
proof (cases i j rule: linorder_cases)
  case less
  then show ?thesis by (simp add: calculate_S_ij_def)
next
  case equal
  then show ?thesis by simp
next
  case greater
  then show ?thesis by (simp add: calculate_S_ij_def)
qed

lemma load_S_body_eq:
  "load_S_body lib c g j i S_arr =
     S_arr((i, j) := calculate_S_ij lib c i j g, (j, i) := calculate_S_ij lib c i j g)"
  by (simp add: load_S_body_def Let_def)

lemma fold_load_S_body:
  "fold (load_S_body lib c g j) [0..<m] A0 (a, b) =
     (if b = j \<and> a < m then calculate_S_ij lib c a j g
      else if a = j \<and> b < m then calculate_S_ij lib c b j g else A0 (a, b))"
proof (induction m)
  case 0
  then show ?case by simp
next
  case (Suc m)
  let ?A = "fold (load_S_body lib c g j) [0..<m] A0"
  have "fold (load_S_body lib c g j) [0..<Suc m] A0 (a, b) = load_S_body lib c g j m ?A (a, b)"
    by simp
  also have "\<dots> = (if (a, b) = (j, m) then calculate_S_ij lib c m j g
                     else if (a, b) = (m, j) then calculate_S_ij lib c m j g else ?A (a, b))"
    by (simp only: load_S_body_eq fun_upd_apply)
  also have "\<dots> = (if b = j \<and> a < Suc m then calculate_S_ij lib c a j g
      else if a = j \<and> b < Suc m then calculate_S_ij lib c b j g else A0 (a, b))"
    unfolding Suc by (cases "a = j"; cases "b = j"; cases "a = m"; cases "b = m") (simp_all add: less_Suc_eq)
  finally show ?case .
qed

lemma fold_rows:
  fixes row :: "nat \<Rightarrow> array2 \<Rightarrow> array2"
  assumes row: "\<And>j A a b. row j A (a, b) =
     (if b = j \<and> a < j + 1 then v a j else if a = j \<and> b < j + 1 then v b j else A (a, b))"
  shows "fold row [0..<n] A0 (a, b) =
     (if a < n \<and> b < n then v (min a b) (max a b) else A0 (a, b))"
proof (induction n)
  case 0
  then show ?case by simp
next
  case (Suc n)
  have "fold row [0..<Suc n] A0 (a, b) = row n (fold row [0..<n] A0) (a, b)"
    by simp
  also have "\<dots> = (if b = n \<and> a < n + 1 then v a n
                     else if a = n \<and> b < n + 1 then v b n else fold row [0..<n] A0 (a, b))"
    by (rule row)
  also have "\<dots> = (if a < Suc n \<and> b < Suc n then v (min a b) (max a b) else A0 (a, b))"
    unfolding Suc by (auto simp: min_def max_def)
  finally show ?case .
qed

lemma load_S_entry:
  assumes "a < nregions c" "b < nregions c"
  shows "load_S lib c g S_arr (a, b) = calculate_S_ij lib c a b g"
proof -
  have "load_S lib c g S_arr (a, b) =
        (if a < nregions c \<and> b < nregions c
         then calculate_S_ij lib c (min a b) (max a b) g else S_arr (a, b))"
    unfolding load_S_def by (rule fold_rows) (rule fold_load_S_body)
  then show ?thesis
    using assms calculate_S_ij_swap[of lib c a b g] by (auto simp: min_def max_def)
qed


lemma load_p_body_eq:
  "load_p_body c g S_arr j i p =
     p((g, i, j) := P_entry c g S_arr i j, (g, j, i) := P_entry c g S_arr i j)"
  by (simp add: load_p_body_def P_entry_def Let_def)

lemma fold_load_p_body:
  "fold (load_p_body c g S_arr j) [0..<m] A0 (h, a, b) =
     (if h = g \<and> b = j \<and> a < m then P_entry c g S_arr a j
      else if h = g \<and> a = j \<and> b < m then P_entry c g S_arr b j else A0 (h, a, b))"
proof (induction m)
  case 0
  then show ?case by simp
next
  case (Suc m)
  let ?A = "fold (load_p_body c g S_arr j) [0..<m] A0"
  have "fold (load_p_body c g S_arr j) [0..<Suc m] A0 (h, a, b) =
        load_p_body c g S_arr j m ?A (h, a, b)"
    by simp
  also have "\<dots> = (if (h, a, b) = (g, j, m) then P_entry c g S_arr m j
                     else if (h, a, b) = (g, m, j) then P_entry c g S_arr m j else ?A (h, a, b))"
    by (simp only: load_p_body_eq fun_upd_apply)
  also have "\<dots> = (if h = g \<and> b = j \<and> a < Suc m then P_entry c g S_arr a j
      else if h = g \<and> a = j \<and> b < Suc m then P_entry c g S_arr b j else A0 (h, a, b))"
    unfolding Suc
    by (cases "h = g"; cases "a = j"; cases "b = j"; cases "a = m"; cases "b = m")
       (simp_all add: less_Suc_eq)
  finally show ?case .
qed

lemma fold_rows3:
  fixes row :: "nat \<Rightarrow> array3 \<Rightarrow> array3"
  assumes row: "\<And>j A h a b. row j A (h, a, b) =
     (if h = g \<and> b = j \<and> a < j + 1 then v a j
      else if h = g \<and> a = j \<and> b < j + 1 then v b j else A (h, a, b))"
  shows "fold row [0..<n] A0 (h, a, b) =
     (if h = g \<and> a < n \<and> b < n then v (min a b) (max a b) else A0 (h, a, b))"
proof (induction n)
  case 0
  then show ?case by simp
next
  case (Suc n)
  have "fold row [0..<Suc n] A0 (h, a, b) = row n (fold row [0..<n] A0) (h, a, b)"
    by simp
  also have "\<dots> = (if h = g \<and> b = n \<and> a < n + 1 then v a n
                     else if h = g \<and> a = n \<and> b < n + 1 then v b n
                     else fold row [0..<n] A0 (h, a, b))"
    by (rule row)
  also have "\<dots> = (if h = g \<and> a < Suc n \<and> b < Suc n then v (min a b) (max a b)
                     else A0 (h, a, b))"
    unfolding Suc by (auto simp: min_def max_def)
  finally show ?case .
qed

lemma load_p_entry:
  "load_p c g S_arr p (h, a, b) =
     (if h = g \<and> a < nregions c \<and> b < nregions c
      then P_entry c g S_arr (min a b) (max a b) else p (h, a, b))"
  unfolding load_p_def by (rule fold_rows3) (rule fold_load_p_body)

lemma fold_group_body_snd:
  "snd (fold (group_body lib c) [0..<G] (p, (\<lambda>_. 0))) = (\<lambda>_. 0)"
  by (induction G) (simp_all add: group_body_def Let_def)

lemma fold_group_body_fst:
  "fst (fold (group_body lib c) [0..<G] (p, (\<lambda>_. 0))) (h, a, b) =
     (if h < G \<and> a < nregions c \<and> b < nregions c
      then P_entry c h (load_S lib c h (\<lambda>_. 0)) (min a b) (max a b)
      else p (h, a, b))"
proof (induction G)
  case 0
  then show ?case by simp
next
  case (Suc G)
  let ?st = "fold (group_body lib c) [0..<G] (p, (\<lambda>_. 0))"
  have "fst (fold (group_body lib c) [0..<Suc G] (p, (\<lambda>_. 0))) (h, a, b) =
        fst (group_body lib c G ?st) (h, a, b)"
    by simp
  also have "\<dots> = load_p c G (load_S lib c G (\<lambda>_. 0)) (fst ?st) (h, a, b)"
    by (simp only: group_body_def Let_def fst_conv fold_group_body_snd)
  also have "\<dots> = (if h = G \<and> a < nregions c \<and> b < nregions c
                     then P_entry c G (load_S lib c G (\<lambda>_. 0)) (min a b) (max a b)
                     else fst ?st (h, a, b))"
    by (rule load_p_entry)
  also have "\<dots> = (if h < Suc G \<and> a < nregions c \<and> b < nregions c
      then P_entry c h (load_S lib c h (\<lambda>_. 0)) (min a b) (max a b)
      else p (h, a, b))"
    unfolding Suc by (auto simp: less_Suc_eq)
  finally show ?case .
qed

lemma cell_p_collision:
  "cell_p (calculate_collision_probabilities lib c) (h, a, b) =
     (if h < ngroups c \<and> a < nregions c \<and> b < nregions c
      then P_entry c h (load_S lib c h (\<lambda>_. 0)) (min a b) (max a b)
      else cell_p c (h, a, b))"
  by (simp add: calculate_collision_probabilities_def Let_def fold_group_body_fst)

lemma collision_frame:
  "cell_radii (calculate_collision_probabilities lib c) = cell_radii c"
  "cell_vols (calculate_collision_probabilities lib c) = cell_vols c"
  "cell_mats (calculate_collision_probabilities lib c) = cell_mats c"
  "cell_ngroups (calculate_collision_probabilities lib c) = cell_ngroups c"
  "cell_Gamma (calculate_collision_probabilities lib c) = cell_Gamma c"
  "cell_X (calculate_collision_probabilities lib c) = cell_X c"
  "cell_Y (calculate_collision_probabilities lib c) = cell_Y c"
  "cell_solved (calculate_collision_probabilities lib c) = cell_solved c"
  "nregions (calculate_collision_probabilities lib c) = nregions c"
  "ngroups (calculate_collision_probabilities lib c) = ngroups c"
  by (simp_all add: calculate_collision_probabilities_def Let_def nregions_def ngroups_def)

lemma P_entry_load_S:
  assumes "i \<le> j" "j < nregions c"
  shows "P_entry c g (load_S lib c g S0) i j =
     2 * calculate_S_ij lib c i j g
     + (if i > 0 \<and> j > 0 then 2 * calculate_S_ij lib c (i - 1) (j - 1) g else 0)
     - (if i > 0 then 2 * calculate_S_ij lib c (i - 1) j g else 0)
     - (if j > 0 then 2 * calculate_S_ij lib c i (j - 1) g else 0)
     + (if i = j then Etr (cell_mats c ! i) g * cell_vols c ! i else 0)"
  using assms by (simp add: P_entry_def load_S_entry)

section \<open>The loops of \<^verbatim>\<open>solve_systems\<close>\<close>

lemma load_M_body_eq: "load_M_body c g i j M = M((i, j) := M_entry c g i j)"
  by (simp add: load_M_body_def M_entry_def Let_def)

lemma fold_load_M_body:
  "fold (load_M_body c g i) [0..<m] M (a, b) =
     (if a = i \<and> b < m then M_entry c g i b else M (a, b))"
proof (induction m)
  case 0
  then show ?case by simp
next
  case (Suc m)
  let ?A = "fold (load_M_body c g i) [0..<m] M"
  have "fold (load_M_body c g i) [0..<Suc m] M (a, b) = load_M_body c g i m ?A (a, b)"
    by simp
  also have "\<dots> = (if (a, b) = (i, m) then M_entry c g i m else ?A (a, b))"
    by (simp only: load_M_body_eq fun_upd_apply)
  also have "\<dots> = (if a = i \<and> b < Suc m then M_entry c g i b else M (a, b))"
    unfolding Suc by (cases "a = i"; cases "b = m") (simp_all add: less_Suc_eq)
  finally show ?case .
qed

lemma fold_fold_load_M_body:
  "fold (\<lambda>i. fold (load_M_body c g i) [0..<m]) [0..<n] M (a, b) =
     (if a < n \<and> b < m then M_entry c g a b else M (a, b))"
proof (induction n)
  case 0
  then show ?case by simp
next
  case (Suc n)
  let ?A = "fold (\<lambda>i. fold (load_M_body c g i) [0..<m]) [0..<n] M"
  have "fold (\<lambda>i. fold (load_M_body c g i) [0..<m]) [0..<Suc n] M (a, b) =
        fold (load_M_body c g n) [0..<m] ?A (a, b)"
    by simp
  also have "\<dots> = (if a = n \<and> b < m then M_entry c g n b else ?A (a, b))"
    by (rule fold_load_M_body)
  also have "\<dots> = (if a < Suc n \<and> b < m then M_entry c g a b else M (a, b))"
    unfolding Suc by (cases "a = n") (simp_all add: less_Suc_eq)
  finally show ?case .
qed

lemma load_M_entry:
  "load_M c g (i, j) = (if i < nregions c \<and> j < nregions c then M_entry c g i j else 0)"
  unfolding load_M_def by (rule fold_fold_load_M_body)

lemma fold_upd1:
  "fold (\<lambda>i b. b(i := v i)) [0..<m] b0 a = (if a < m then v a else b0 a)"
  by (induction m) (simp_all add: less_Suc_eq)

lemma load_b_X_entry:
  "load_b_X c g k i =
     (if i < nregions c then cell_p c (g, k, i) / Etr (cell_mats c ! k) g else 0)"
  by (simp add: load_b_X_def Let_def fold_upd1)

lemma fold_sum_p:
  "fold (\<lambda>j sum_p. sum_p + f j) [0..<m] (s::real) = s + (\<Sum>j<m. f j)"
  by (induction m) simp_all

lemma load_b_Y_entry:
  "load_b_Y lib c g i =
     (if i < nregions c
      then 4 / S lib (cell_radii c) *
           (Etr (cell_mats c ! i) g * cell_vols c ! i - (\<Sum>j<nregions c. cell_p c (g, i, j)))
      else 0)"
  by (simp add: load_b_Y_def Let_def fold_sum_p fold_upd1)

lemma fold_store_column:
  "fold (\<lambda>i X. X((g, i, k) := v i)) [0..<m] (X0::array3) (h, a, b) =
     (if h = g \<and> b = k \<and> a < m then v a else X0 (h, a, b))"
proof (induction m)
  case 0
  then show ?case by simp
next
  case (Suc m)
  let ?A = "fold (\<lambda>i X. X((g, i, k) := v i)) [0..<m] X0"
  have "fold (\<lambda>i X. X((g, i, k) := v i)) [0..<Suc m] X0 (h, a, b) =
        (if (h, a, b) = (g, m, k) then v m else ?A (h, a, b))"
    by simp
  also have "\<dots> = (if h = g \<and> b = k \<and> a < Suc m then v a else X0 (h, a, b))"
    unfolding Suc by (cases "a = m") (simp_all add: less_Suc_eq)
  finally show ?case .
qed

lemma solve_X_body_entry:
  "solve_X_body c g solver k X (h, a, b) =
     (if h = g \<and> b = k \<and> a < nregions c then solver (load_b_X c g k) a else X (h, a, b))"
  by (simp only: solve_X_body_def Let_def fold_store_column)

lemma fold_solve_X_body:
  "fold (solve_X_body c g solver) [0..<m] X (h, a, b) =
     (if h = g \<and> b < m \<and> a < nregions c then solver (load_b_X c g b) a else X (h, a, b))"
proof (induction m)
  case 0
  then show ?case by simp
next
  case (Suc m)
  let ?A = "fold (solve_X_body c g solver) [0..<m] X"
  have "fold (solve_X_body c g solver) [0..<Suc m] X (h, a, b) =
        solve_X_body c g solver m ?A (h, a, b)"
    by simp
  also have "\<dots> = (if h = g \<and> b = m \<and> a < nregions c then solver (load_b_X c g m) a
                     else ?A (h, a, b))"
    by (rule solve_X_body_entry)
  also have "\<dots> = (if h = g \<and> b < Suc m \<and> a < nregions c
                     then solver (load_b_X c g b) a else X (h, a, b))"
    unfolding Suc by (cases "b = m") (simp_all add: less_Suc_eq)
  finally show ?case .
qed

lemma fold_store_Y:
  "fold (\<lambda>i Y. Y((g, i) := v i)) [0..<m] (Y0::array2) (h, a) =
     (if h = g \<and> a < m then v a else Y0 (h, a))"
proof (induction m)
  case 0
  then show ?case by simp
next
  case (Suc m)
  let ?A = "fold (\<lambda>i Y. Y((g, i) := v i)) [0..<m] Y0"
  have "fold (\<lambda>i Y. Y((g, i) := v i)) [0..<Suc m] Y0 (h, a) =
        (if (h, a) = (g, m) then v m else ?A (h, a))"
    by simp
  also have "\<dots> = (if h = g \<and> a < Suc m then v a else Y0 (h, a))"
    unfolding Suc by (cases "a = m") (simp_all add: less_Suc_eq)
  finally show ?case .
qed

lemma fold_Gamma_body:
  "fold (Gamma_body g) [0..<m] c =
     c\<lparr>cell_Gamma := (cell_Gamma c)
          [g := cell_Gamma c ! g +
                (\<Sum>i<m. Er_tr (cell_mats c ! i) g * cell_vols c ! i * cell_Y c (g, i))]\<rparr>"
proof (induction m)
  case 0
  then show ?case by simp
next
  case (Suc m)
  have "fold (Gamma_body g) [0..<Suc m] c = Gamma_body g m (fold (Gamma_body g) [0..<m] c)"
    by simp
  also have "\<dots> = c\<lparr>cell_Gamma := (cell_Gamma c)
          [g := cell_Gamma c ! g +
                (\<Sum>i<Suc m. Er_tr (cell_mats c ! i) g * cell_vols c ! i * cell_Y c (g, i))]\<rparr>"
    unfolding Suc
    by (cases "g < length (cell_Gamma c)") (simp_all add: Gamma_body_def add.assoc list_update_beyond not_less)
  finally show ?case .
qed

lemma load_M_cong:
  assumes "cell_p c' = cell_p c" "cell_mats c' = cell_mats c" "cell_vols c' = cell_vols c"
    "cell_radii c' = cell_radii c"
  shows "load_M c' g = load_M c g"
proof
  fix x :: "nat \<times> nat"
  obtain a b where x: "x = (a, b)" by (cases x)
  show "load_M c' g x = load_M c g x"
    unfolding x load_M_entry by (simp add: assms M_entry_def nregions_def)
qed

lemma load_b_X_cong:
  assumes "cell_p c' = cell_p c" "cell_mats c' = cell_mats c" "cell_radii c' = cell_radii c"
  shows "load_b_X c' g k = load_b_X c g k"
  by (rule ext) (simp add: load_b_X_entry assms nregions_def)

lemma load_b_Y_cong:
  assumes "cell_p c' = cell_p c" "cell_mats c' = cell_mats c" "cell_vols c' = cell_vols c"
    "cell_radii c' = cell_radii c"
  shows "load_b_Y lib c' g = load_b_Y lib c g"
  by (rule ext) (simp add: load_b_Y_entry assms nregions_def)

lemma solve_group_eq:
  "solve_group lib g c =
     c\<lparr>cell_X := fold (solve_X_body c g (householderQr lib (nregions c) (load_M c g)))
                     [0..<nregions c] (cell_X c),
       cell_Y := fold (\<lambda>i Y. Y((g, i) :=
                        householderQr lib (nregions c) (load_M c g) (load_b_Y lib c g) i))
                     [0..<nregions c] (cell_Y c),
       cell_Gamma := (cell_Gamma c)
         [g := cell_Gamma c ! g +
               (\<Sum>i<nregions c. Er_tr (cell_mats c ! i) g * cell_vols c ! i *
                  fold (\<lambda>i Y. Y((g, i) :=
                        householderQr lib (nregions c) (load_M c g) (load_b_Y lib c g) i))
                     [0..<nregions c] (cell_Y c) (g, i))]\<rparr>"
proof -
  let ?c1 = "c\<lparr>cell_X := fold (solve_X_body c g (householderQr lib (nregions c) (load_M c g)))
                     [0..<nregions c] (cell_X c)\<rparr>"
  have b: "load_b_Y lib ?c1 g = load_b_Y lib c g"
    by (rule load_b_Y_cong) simp_all
  have n: "nregions ?c1 = nregions c"
    by (simp add: nregions_def)
  show ?thesis
    unfolding solve_group_def Let_def b n fold_Gamma_body
    by (simp add: nregions_def)
qed

lemma solve_group_frame:
  "cell_p (solve_group lib g c) = cell_p c"
  "cell_radii (solve_group lib g c) = cell_radii c"
  "cell_vols (solve_group lib g c) = cell_vols c"
  "cell_mats (solve_group lib g c) = cell_mats c"
  "cell_ngroups (solve_group lib g c) = cell_ngroups c"
  "cell_solved (solve_group lib g c) = cell_solved c"
  "length (cell_Gamma (solve_group lib g c)) = length (cell_Gamma c)"
  by (simp_all add: solve_group_eq)

lemma solve_group_X:
  "cell_X (solve_group lib g c) (h, a, b) =
     (if h = g \<and> a < nregions c \<and> b < nregions c
      then householderQr lib (nregions c) (load_M c g) (load_b_X c g b) a
      else cell_X c (h, a, b))"
  by (simp add: solve_group_eq fold_solve_X_body)

lemma solve_group_Y:
  "cell_Y (solve_group lib g c) (h, a) =
     (if h = g \<and> a < nregions c
      then householderQr lib (nregions c) (load_M c g) (load_b_Y lib c g) a
      else cell_Y c (h, a))"
  by (simp add: solve_group_eq fold_store_Y)

lemma solve_group_Gamma:
  "cell_Gamma (solve_group lib g c) =
     (cell_Gamma c)
       [g := cell_Gamma c ! g +
             (\<Sum>i<nregions c. Er_tr (cell_mats c ! i) g * cell_vols c ! i *
                householderQr lib (nregions c) (load_M c g) (load_b_Y lib c g) i)]"
proof -
  have "(\<Sum>i<nregions c. Er_tr (cell_mats c ! i) g * cell_vols c ! i *
            fold (\<lambda>i Y. Y((g, i) :=
                   householderQr lib (nregions c) (load_M c g) (load_b_Y lib c g) i))
                 [0..<nregions c] (cell_Y c) (g, i)) =
        (\<Sum>i<nregions c. Er_tr (cell_mats c ! i) g * cell_vols c ! i *
            householderQr lib (nregions c) (load_M c g) (load_b_Y lib c g) i)"
    by (rule sum.cong) (simp_all add: fold_store_Y)
  then show ?thesis by (simp add: solve_group_eq)
qed

lemma fold_solve_group_frame:
  "cell_p (fold (solve_group lib) [0..<G] c) = cell_p c \<and>
   cell_radii (fold (solve_group lib) [0..<G] c) = cell_radii c \<and>
   cell_vols (fold (solve_group lib) [0..<G] c) = cell_vols c \<and>
   cell_mats (fold (solve_group lib) [0..<G] c) = cell_mats c \<and>
   cell_ngroups (fold (solve_group lib) [0..<G] c) = cell_ngroups c \<and>
   cell_solved (fold (solve_group lib) [0..<G] c) = cell_solved c \<and>
   length (cell_Gamma (fold (solve_group lib) [0..<G] c)) = length (cell_Gamma c)"
  by (induction G) (simp_all add: solve_group_frame)

lemma fold_solve_group_inputs:
  "nregions (fold (solve_group lib) [0..<G] c) = nregions c"
  "load_M (fold (solve_group lib) [0..<G] c) g = load_M c g"
  "load_b_X (fold (solve_group lib) [0..<G] c) g k = load_b_X c g k"
  "load_b_Y lib (fold (solve_group lib) [0..<G] c) g = load_b_Y lib c g"
proof -
  note fr = fold_solve_group_frame[of lib G c]
  show "nregions (fold (solve_group lib) [0..<G] c) = nregions c"
    using fr by (simp add: nregions_def)
  show "load_M (fold (solve_group lib) [0..<G] c) g = load_M c g"
    by (rule load_M_cong) (simp_all add: fr)
  show "load_b_X (fold (solve_group lib) [0..<G] c) g k = load_b_X c g k"
    by (rule load_b_X_cong) (simp_all add: fr)
  show "load_b_Y lib (fold (solve_group lib) [0..<G] c) g = load_b_Y lib c g"
    by (rule load_b_Y_cong) (simp_all add: fr)
qed

lemma fold_solve_group_X:
  "cell_X (fold (solve_group lib) [0..<G] c) (h, a, b) =
     (if h < G \<and> a < nregions c \<and> b < nregions c
      then householderQr lib (nregions c) (load_M c h) (load_b_X c h b) a
      else cell_X c (h, a, b))"
proof (induction G)
  case 0
  then show ?case by simp
next
  case (Suc G)
  let ?c = "fold (solve_group lib) [0..<G] c"
  have "cell_X (fold (solve_group lib) [0..<Suc G] c) (h, a, b) =
        cell_X (solve_group lib G ?c) (h, a, b)"
    by simp
  also have "\<dots> = (if h = G \<and> a < nregions c \<and> b < nregions c
      then householderQr lib (nregions c) (load_M c G) (load_b_X c G b) a
      else cell_X ?c (h, a, b))"
    unfolding solve_group_X fold_solve_group_inputs ..
  also have "\<dots> = (if h < Suc G \<and> a < nregions c \<and> b < nregions c
      then householderQr lib (nregions c) (load_M c h) (load_b_X c h b) a
      else cell_X c (h, a, b))"
    unfolding Suc by (cases "h = G") (simp_all add: less_Suc_eq)
  finally show ?case .
qed

lemma fold_solve_group_Y:
  "cell_Y (fold (solve_group lib) [0..<G] c) (h, a) =
     (if h < G \<and> a < nregions c
      then householderQr lib (nregions c) (load_M c h) (load_b_Y lib c h) a
      else cell_Y c (h, a))"
proof (induction G)
  case 0
  then show ?case by simp
next
  case (Suc G)
  let ?c = "fold (solve_group lib) [0..<G] c"
  have "cell_Y (fold (solve_group lib) [0..<Suc G] c) (h, a) =
        cell_Y (solve_group lib G ?c) (h, a)"
    by simp
  also have "\<dots> = (if h = G \<and> a < nregions c
      then householderQr lib (nregions c) (load_M c G) (load_b_Y lib c G) a
      else cell_Y ?c (h, a))"
    unfolding solve_group_Y fold_solve_group_inputs ..
  also have "\<dots> = (if h < Suc G \<and> a < nregions c
      then householderQr lib (nregions c) (load_M c h) (load_b_Y lib c h) a
      else cell_Y c (h, a))"
    unfolding Suc by (cases "h = G") (simp_all add: less_Suc_eq)
  finally show ?case .
qed

lemma fold_solve_group_Gamma:
  assumes "h < length (cell_Gamma c)"
  shows "cell_Gamma (fold (solve_group lib) [0..<G] c) ! h =
     (if h < G
      then cell_Gamma c ! h +
           (\<Sum>i<nregions c. Er_tr (cell_mats c ! i) h * cell_vols c ! i *
              householderQr lib (nregions c) (load_M c h) (load_b_Y lib c h) i)
      else cell_Gamma c ! h)"
proof (induction G)
  case 0
  then show ?case by simp
next
  case (Suc G)
  let ?c = "fold (solve_group lib) [0..<G] c"
  have fr: "cell_mats ?c = cell_mats c" "cell_vols ?c = cell_vols c"
    "length (cell_Gamma ?c) = length (cell_Gamma c)"
    using fold_solve_group_frame[of lib G c] by simp_all
  have "cell_Gamma (fold (solve_group lib) [0..<Suc G] c) ! h =
        cell_Gamma (solve_group lib G ?c) ! h"
    by simp
  also have "\<dots> = (if h = G
      then cell_Gamma ?c ! h +
           (\<Sum>i<nregions c. Er_tr (cell_mats c ! i) h * cell_vols c ! i *
              householderQr lib (nregions c) (load_M c h) (load_b_Y lib c h) i)
      else cell_Gamma ?c ! h)"
    unfolding solve_group_Gamma fold_solve_group_inputs fr(1,2)
    using assms fr(3) by (simp add: nth_list_update)
  also have "\<dots> = (if h < Suc G
      then cell_Gamma c ! h +
           (\<Sum>i<nregions c. Er_tr (cell_mats c ! i) h * cell_vols c ! i *
              householderQr lib (nregions c) (load_M c h) (load_b_Y lib c h) i)
      else cell_Gamma c ! h)"
    unfolding Suc by (cases "h = G") (simp_all add: less_Suc_eq)
  finally show ?case .
qed

lemma length_resize: "length (resize n v xs) = n"
  by (simp add: resize_def)

lemma resize_Nil_nth: "h < n \<Longrightarrow> resize n v [] ! h = v"
  by (simp add: resize_def)

lemma resize_same_length: "length xs = n \<Longrightarrow> resize n v xs = xs"
  by (simp add: resize_def)

lemma solve_systems_frame:
  "cell_p (solve_systems lib c) = cell_p c"
  "cell_radii (solve_systems lib c) = cell_radii c"
  "cell_vols (solve_systems lib c) = cell_vols c"
  "cell_mats (solve_systems lib c) = cell_mats c"
  "cell_ngroups (solve_systems lib c) = cell_ngroups c"
  "cell_solved (solve_systems lib c) = True"
  "length (cell_Gamma (solve_systems lib c)) = ngroups c"
  using fold_solve_group_frame[of lib "ngroups c"
      "c\<lparr>cell_X := (\<lambda>_. 0), cell_Y := (\<lambda>_. 0),
         cell_Gamma := resize (ngroups c) 0 (cell_Gamma c)\<rparr>"]
  by (simp_all add: solve_systems_def Let_def ngroups_def length_resize)

lemma solve_systems_inputs:
  "nregions (solve_systems lib c) = nregions c"
  "ngroups (solve_systems lib c) = ngroups c"
  by (simp_all add: nregions_def ngroups_def solve_systems_frame)

lemma reset_inputs:
  "nregions (c\<lparr>cell_X := X0, cell_Y := Y0, cell_Gamma := G0\<rparr>) = nregions c"
  "ngroups (c\<lparr>cell_X := X0, cell_Y := Y0, cell_Gamma := G0\<rparr>) = ngroups c"
  "load_M (c\<lparr>cell_X := X0, cell_Y := Y0, cell_Gamma := G0\<rparr>) g = load_M c g"
  "load_b_X (c\<lparr>cell_X := X0, cell_Y := Y0, cell_Gamma := G0\<rparr>) g k = load_b_X c g k"
  "load_b_Y lib (c\<lparr>cell_X := X0, cell_Y := Y0, cell_Gamma := G0\<rparr>) g = load_b_Y lib c g"
proof -
  show "nregions (c\<lparr>cell_X := X0, cell_Y := Y0, cell_Gamma := G0\<rparr>) = nregions c"
    by (simp add: nregions_def)
  show "ngroups (c\<lparr>cell_X := X0, cell_Y := Y0, cell_Gamma := G0\<rparr>) = ngroups c"
    by (simp add: ngroups_def)
  show "load_M (c\<lparr>cell_X := X0, cell_Y := Y0, cell_Gamma := G0\<rparr>) g = load_M c g"
    by (rule load_M_cong) simp_all
  show "load_b_X (c\<lparr>cell_X := X0, cell_Y := Y0, cell_Gamma := G0\<rparr>) g k = load_b_X c g k"
    by (rule load_b_X_cong) simp_all
  show "load_b_Y lib (c\<lparr>cell_X := X0, cell_Y := Y0, cell_Gamma := G0\<rparr>) g = load_b_Y lib c g"
    by (rule load_b_Y_cong) simp_all
qed

lemma solve_systems_X:
  "cell_X (solve_systems lib c) (h, a, b) =
     (if h < ngroups c \<and> a < nregions c \<and> b < nregions c
      then householderQr lib (nregions c) (load_M c h) (load_b_X c h b) a
      else 0)"
  unfolding solve_systems_def Let_def
  by (simp add: fold_solve_group_X reset_inputs)

lemma solve_systems_Y:
  "cell_Y (solve_systems lib c) (h, a) =
     (if h < ngroups c \<and> a < nregions c
      then householderQr lib (nregions c) (load_M c h) (load_b_Y lib c h) a
      else 0)"
  unfolding solve_systems_def Let_def
  by (simp add: fold_solve_group_Y reset_inputs)

lemma solve_systems_Gamma:
  assumes "h < ngroups c"
  shows "cell_Gamma (solve_systems lib c) ! h =
     resize (ngroups c) 0 (cell_Gamma c) ! h +
     (\<Sum>i<nregions c. Er_tr (cell_mats c ! i) h * cell_vols c ! i *
        householderQr lib (nregions c) (load_M c h) (load_b_Y lib c h) i)"
proof -
  let ?c1 = "c\<lparr>cell_X := (\<lambda>_. 0), cell_Y := (\<lambda>_. 0),
                 cell_Gamma := resize (ngroups c) 0 (cell_Gamma c)\<rparr>"
  have len: "h < length (cell_Gamma ?c1)"
    using assms by (simp add: length_resize)
  have "cell_Gamma (solve_systems lib c) ! h =
        cell_Gamma (fold (solve_group lib) [0..<ngroups c] ?c1) ! h"
    by (simp add: solve_systems_def Let_def reset_inputs)
  also have "\<dots> = cell_Gamma ?c1 ! h +
     (\<Sum>i<nregions ?c1. Er_tr (cell_mats ?c1 ! i) h * cell_vols ?c1 ! i *
        householderQr lib (nregions ?c1) (load_M ?c1 h) (load_b_Y lib ?c1 h) i)"
    using assms by (simp only: fold_solve_group_Gamma[OF len] if_True)
  also have "\<dots> = resize (ngroups c) 0 (cell_Gamma c) ! h +
     (\<Sum>i<nregions c. Er_tr (cell_mats c ! i) h * cell_vols c ! i *
        householderQr lib (nregions c) (load_M c h) (load_b_Y lib c h) i)"
    unfolding reset_inputs by simp
  finally show ?thesis .
qed

section \<open>Collision probabilities: the formula and the symmetry\<close>

lemma solve_p: "cell_p (solve lib c) = cell_p (calculate_collision_probabilities lib c)"
  by (simp add: solve_def solve_systems_frame)

lemma two_region_cell_sizes:
  "nregions two_region_cell = 2" "ngroups two_region_cell = 1"
  by (simp_all add: nregions_def ngroups_def two_region_cell_def)

text \<open>
  Claim C5: for every group \<open>g\<close> and region pair \<open>i \<le> j\<close>, the collision probability that
  \<^verbatim>\<open>calculate_collision_probabilities\<close> stores (and that \<^verbatim>\<open>solve\<close> leaves in place) is
  \<open>2 S(i,j) + 2 S(i-1,j-1) - 2 S(i-1,j) - 2 S(i,j-1)\<close>, a term with a negative index
  omitted, plus \<open>Etr\<^sub>i(g) V\<^sub>i\<close> exactly when \<open>i = j\<close>. Here \<open>S(a,b)\<close> is the value of
  \<^verbatim>\<open>calculate_S_ij(a, b, g)\<close>, which is what the scratch matrix holds at \<open>(a, b)\<close>.
\<close>

theorem collision_probability_formula:
  assumes "g < ngroups c" "i \<le> j" "j < nregions c"
  shows "cell_p (calculate_collision_probabilities lib c) (g, i, j) =
           2 * calculate_S_ij lib c i j g
           + (if i > 0 \<and> j > 0 then 2 * calculate_S_ij lib c (i - 1) (j - 1) g else 0)
           - (if i > 0 then 2 * calculate_S_ij lib c (i - 1) j g else 0)
           - (if j > 0 then 2 * calculate_S_ij lib c i (j - 1) g else 0)
           + (if i = j then Etr (cell_mats c ! i) g * cell_vols c ! i else 0) \<and>
         cell_p (solve lib c) (g, i, j) =
           cell_p (calculate_collision_probabilities lib c) (g, i, j)"
proof -
  have i: "i < nregions c" using assms(2,3) by simp
  have mm: "min i j = i" "max i j = j" using assms(2) by simp_all
  have "cell_p (calculate_collision_probabilities lib c) (g, i, j) =
        P_entry c g (load_S lib c g (\<lambda>_. 0)) i j"
    using assms i by (simp add: cell_p_collision mm)
  then show ?thesis
    using assms by (simp add: P_entry_load_S solve_p mult.commute)
qed

lemma two_region_cell_fields:
  "cell_radii two_region_cell = [1, 2]"
  "cell_mats two_region_cell = [example_mat, example_mat]"
  "cell_vols two_region_cell ! 0 = pi" "cell_vols two_region_cell ! Suc 0 = 3 * pi"
  "cell_Gamma two_region_cell = []"
  by (simp_all add: two_region_cell_def calculate_vols_nth PI_def)

lemma example_mat_fields:
  "Etr example_mat g = 1" "Es_tr example_mat g = 0" "Er_tr example_mat g = 1"
  by (simp_all add: example_mat_def)

theorem collision_probability_formula_witness:
  "(0::nat) < ngroups two_region_cell \<and> (1::nat) \<le> 1 \<and> 1 < nregions two_region_cell \<and>
   (\<forall>lib. cell_p (calculate_collision_probabilities lib two_region_cell) (0, 1, 1) =
     2 * calculate_S_ij lib two_region_cell 1 1 0
     + 2 * calculate_S_ij lib two_region_cell 0 0 0
     - 2 * calculate_S_ij lib two_region_cell 0 1 0
     - 2 * calculate_S_ij lib two_region_cell 1 0 0
     + 3 * pi)"
proof -
  have h: "(0::nat) < ngroups two_region_cell" "(1::nat) \<le> 1" "1 < nregions two_region_cell"
    by (simp_all add: two_region_cell_sizes)
  have "cell_p (calculate_collision_probabilities lib two_region_cell) (0, 1, 1) =
     2 * calculate_S_ij lib two_region_cell 1 1 0
     + 2 * calculate_S_ij lib two_region_cell 0 0 0
     - 2 * calculate_S_ij lib two_region_cell 0 1 0
     - 2 * calculate_S_ij lib two_region_cell 1 0 0
     + 3 * pi" for lib
    using collision_probability_formula [OF h, of lib]
    by (simp add: two_region_cell_fields example_mat_fields)
  then show ?thesis using h by blast
qed

text \<open>
  Claim C8: after \<^verbatim>\<open>calculate_collision_probabilities\<close>, and so after every \<^verbatim>\<open>solve\<close>, the
  entries \<open>(g, i, j)\<close> and \<open>(g, j, i)\<close> of \<^verbatim>\<open>p_\<close> are equal for every group and every pair
  of regions. The cell \<open>c\<close> is any state, solved before or not.
\<close>

theorem collision_probability_symmetric:
  assumes "g < ngroups c" "i < nregions c" "j < nregions c"
  shows "cell_p (calculate_collision_probabilities lib c) (g, i, j) =
           cell_p (calculate_collision_probabilities lib c) (g, j, i) \<and>
         cell_p (solve lib c) (g, i, j) = cell_p (solve lib c) (g, j, i)"
  using assms by (simp add: solve_p cell_p_collision min.commute max.commute)

theorem collision_probability_symmetric_witness:
  "(0::nat) < ngroups two_region_cell \<and> 0 < nregions two_region_cell \<and>
   1 < nregions two_region_cell \<and>
   (\<forall>lib. cell_p (solve lib two_region_cell) (0, 0, 1) =
          cell_p (solve lib two_region_cell) (0, 1, 0))"
proof -
  have h: "(0::nat) < ngroups two_region_cell" "0 < nregions two_region_cell"
    "1 < nregions two_region_cell"
    by (simp_all add: two_region_cell_sizes)
  have "cell_p (solve lib two_region_cell) (0, 0, 1) =
        cell_p (solve lib two_region_cell) (0, 1, 0)" for lib
    using collision_probability_symmetric [OF h, of lib] by simp
  then show ?thesis using h by blast
qed

section \<open>The response matrices and the blackness\<close>

lemma mat_vec_cong:
  assumes "\<And>j. j < n \<Longrightarrow> x j = y j"
  shows "mat_vec n M x i = mat_vec n M y i"
  unfolding mat_vec_def by (rule sum.cong) (simp_all add: assms)

text \<open>
  Claim C6: for every group \<open>g\<close> the matrix assembled in \<^verbatim>\<open>solve_systems\<close> has the entries
  \<open>M(i,j) = - c\<^sub>j P[g](j,i)\<close> with \<open>c\<^sub>j = Es_tr\<^sub>j(g) / Etr\<^sub>j(g)\<close>, plus \<open>Etr\<^sub>i(g) V\<^sub>i\<close> on the
  diagonal; the right-hand side for the source region \<open>k\<close> is \<open>b\<^sub>k(i) = P[g](k,i) / Etr\<^sub>k(g)\<close>;
  the column \<open>X[g](:,k)\<close> is what the one factorisation of \<open>M\<close> returns for \<open>b\<^sub>k\<close>, and so
  it satisfies \<open>M x = b\<^sub>k\<close> whenever that factorisation solves exactly.
\<close>

theorem response_system:
  assumes "g < ngroups c" "i < nregions c" "j < nregions c" "k < nregions c"
  shows "load_M c g (i, j) =
           - (Es_tr (cell_mats c ! j) g / Etr (cell_mats c ! j) g) * cell_p c (g, j, i)
           + (if i = j then Etr (cell_mats c ! i) g * cell_vols c ! i else 0) \<and>
         load_b_X c g k i = cell_p c (g, k, i) / Etr (cell_mats c ! k) g \<and>
         cell_X (solve_systems lib c) (g, i, k) =
           householderQr lib (nregions c) (load_M c g) (load_b_X c g k) i \<and>
         (solves_exactly (nregions c) (load_M c g) (householderQr lib (nregions c) (load_M c g))
          \<longrightarrow> mat_vec (nregions c) (load_M c g) (\<lambda>r. cell_X (solve_systems lib c) (g, r, k)) i =
                load_b_X c g k i)"
proof -
  let ?n = "nregions c" and ?M = "load_M c g"
  let ?solver = "householderQr lib ?n ?M"
  have M: "load_M c g (i, j) =
           - (Es_tr (cell_mats c ! j) g / Etr (cell_mats c ! j) g) * cell_p c (g, j, i)
           + (if i = j then Etr (cell_mats c ! i) g * cell_vols c ! i else 0)"
    using assms by (auto simp: load_M_entry M_entry_def)
  have b: "load_b_X c g k i = cell_p c (g, k, i) / Etr (cell_mats c ! k) g"
    using assms by (simp add: load_b_X_entry)
  have X: "cell_X (solve_systems lib c) (g, r, k) = ?solver (load_b_X c g k) r" if "r < ?n" for r
    using assms that by (simp add: solve_systems_X)
  have "mat_vec ?n ?M (\<lambda>r. cell_X (solve_systems lib c) (g, r, k)) i = load_b_X c g k i"
    if ex: "solves_exactly ?n ?M ?solver"
  proof -
    have "mat_vec ?n ?M (\<lambda>r. cell_X (solve_systems lib c) (g, r, k)) i =
          mat_vec ?n ?M (?solver (load_b_X c g k)) i"
      by (rule mat_vec_cong) (rule X)
    also have "\<dots> = load_b_X c g k i"
      using ex assms(2) by (simp add: solves_exactly_def)
    finally show ?thesis .
  qed
  with M b X[OF assms(2)] show ?thesis by blast
qed

lemma sum_lessThan_2: "(\<Sum>j<2. f j) = f 0 + (f (Suc 0) :: real)"
  by (simp add: numeral_2_eq_2)

lemma two_region_collision_fields:
  "nregions (calculate_collision_probabilities lib two_region_cell) = 2"
  "ngroups (calculate_collision_probabilities lib two_region_cell) = 1"
  "cell_mats (calculate_collision_probabilities lib two_region_cell) = [example_mat, example_mat]"
  "cell_vols (calculate_collision_probabilities lib two_region_cell) ! 0 = pi"
  "cell_vols (calculate_collision_probabilities lib two_region_cell) ! Suc 0 = 3 * pi"
  by (simp_all add: collision_frame two_region_cell_sizes two_region_cell_fields)

lemma example_mats_nth: "j < 2 \<Longrightarrow> [example_mat, example_mat] ! j = example_mat"
  by (auto simp: less_Suc_eq numeral_2_eq_2)

lemma two_region_M:
  "load_M (calculate_collision_probabilities lib two_region_cell) 0 (i, j) =
     (if i = 0 \<and> j = 0 then pi else if i = 1 \<and> j = 1 then 3 * pi else 0)"
proof (cases "i < 2 \<and> j < 2")
  case True
  then have "i = 0 \<or> i = Suc 0" by auto
  then show ?thesis
    using True
    by (auto simp: load_M_entry M_entry_def two_region_collision_fields example_mat_fields
        example_mats_nth)
next
  case False
  then show ?thesis
    by (auto simp: load_M_entry two_region_collision_fields)
qed

lemma two_region_solves_exactly:
  "solves_exactly 2 (load_M (calculate_collision_probabilities lib two_region_cell) 0)
     (householderQr example_lib 2 (load_M (calculate_collision_probabilities lib two_region_cell) 0))"
  by (auto simp: solves_exactly_def mat_vec_def sum_lessThan_2 two_region_M example_lib_def
      less_Suc_eq numeral_2_eq_2)

theorem response_system_witness:
  "(0::nat) < ngroups (calculate_collision_probabilities example_lib two_region_cell) \<and>
   1 < nregions (calculate_collision_probabilities example_lib two_region_cell) \<and>
   0 < nregions (calculate_collision_probabilities example_lib two_region_cell) \<and>
   load_M (calculate_collision_probabilities example_lib two_region_cell) 0 (1, 1) = 3 * pi \<and>
   load_b_X (calculate_collision_probabilities example_lib two_region_cell) 0 0 1 =
     cell_p (calculate_collision_probabilities example_lib two_region_cell) (0, 0, 1) \<and>
   cell_X (solve example_lib two_region_cell) (0, 1, 0) =
     cell_p (calculate_collision_probabilities example_lib two_region_cell) (0, 0, 1) / (3 * pi) \<and>
   solves_exactly 2 (load_M (calculate_collision_probabilities example_lib two_region_cell) 0)
     (householderQr example_lib 2
        (load_M (calculate_collision_probabilities example_lib two_region_cell) 0)) \<and>
   mat_vec 2 (load_M (calculate_collision_probabilities example_lib two_region_cell) 0)
     (\<lambda>r. cell_X (solve example_lib two_region_cell) (0, r, 0)) 1 =
     load_b_X (calculate_collision_probabilities example_lib two_region_cell) 0 0 1"
proof -
  let ?c = "calculate_collision_probabilities example_lib two_region_cell"
  have h: "(0::nat) < ngroups ?c" "1 < nregions ?c" "0 < nregions ?c"
    by (simp_all add: two_region_collision_fields)
  note ex = two_region_solves_exactly[of example_lib]
  have q: "householderQr example_lib n M b i = b i / M (i, i)" for n M b i
    by (simp add: example_lib_def)
  show ?thesis
    using response_system [OF h(1) h(2) h(2) h(3), of example_lib] h ex
    by (simp add: two_region_collision_fields two_region_M example_mat_fields solve_def q)
qed

text \<open>
  Claim C7: on a freshly constructed cell, for every group \<open>g\<close>, \<open>Y[g]\<close> is what the
  factorisation of the same matrix \<open>M\<close> returns for the right-hand side
  \<open>b(i) = (4 / S) (Etr\<^sub>i(g) V\<^sub>i - \<Sum>\<^sub>j P[g](i,j))\<close>, where \<open>S\<close> depends on the radii only, not
  on the group; so \<open>M Y[g] = b\<close> whenever the factorisation solves exactly. The
  blackness is \<open>Gamma[g] = \<Sum>\<^sub>i Er_tr\<^sub>i(g) V\<^sub>i Y[g](i)\<close>.
\<close>

theorem blackness_system:
  assumes "CylindricalCell radii mats = Inr c" "g < ngroups c" "i < nregions c"
  shows "load_b_Y lib (calculate_collision_probabilities lib c) g i =
           4 / S lib (cell_radii c) *
           (Etr (cell_mats c ! i) g * cell_vols c ! i
            - (\<Sum>j<nregions c. cell_p (solve lib c) (g, i, j))) \<and>
         cell_Y (solve lib c) (g, i) =
           householderQr lib (nregions c) (load_M (calculate_collision_probabilities lib c) g)
             (load_b_Y lib (calculate_collision_probabilities lib c) g) i \<and>
         (solves_exactly (nregions c) (load_M (calculate_collision_probabilities lib c) g)
            (householderQr lib (nregions c) (load_M (calculate_collision_probabilities lib c) g))
          \<longrightarrow> mat_vec (nregions c) (load_M (calculate_collision_probabilities lib c) g)
                  (\<lambda>r. cell_Y (solve lib c) (g, r)) i =
                load_b_Y lib (calculate_collision_probabilities lib c) g i) \<and>
         cell_Gamma (solve lib c) ! g =
           (\<Sum>r<nregions c. Er_tr (cell_mats c ! r) g * cell_vols c ! r * cell_Y (solve lib c) (g, r))"
proof -
  let ?c = "calculate_collision_probabilities lib c"
  let ?n = "nregions c" and ?M = "load_M ?c g"
  let ?solver = "householderQr lib ?n ?M"
  note fr = collision_frame[of lib c]
  have fresh: "cell_Gamma c = []"
    by (rule CylindricalCell_InrD(7)[OF assms(1)])
  have b: "load_b_Y lib ?c g i =
           4 / S lib (cell_radii c) *
           (Etr (cell_mats c ! i) g * cell_vols c ! i
            - (\<Sum>j<nregions c. cell_p (solve lib c) (g, i, j)))"
    using assms(3) by (simp add: load_b_Y_entry fr solve_p)
  have Y: "cell_Y (solve lib c) (g, r) = ?solver (load_b_Y lib ?c g) r" if "r < ?n" for r
    using assms(2) that by (simp add: solve_def solve_systems_Y fr)
  have ex: "mat_vec ?n ?M (\<lambda>r. cell_Y (solve lib c) (g, r)) i = load_b_Y lib ?c g i"
    if e: "solves_exactly ?n ?M ?solver"
  proof -
    have "mat_vec ?n ?M (\<lambda>r. cell_Y (solve lib c) (g, r)) i =
          mat_vec ?n ?M (?solver (load_b_Y lib ?c g)) i"
      by (rule mat_vec_cong) (rule Y)
    also have "\<dots> = load_b_Y lib ?c g i"
      using e assms(3) by (simp add: solves_exactly_def)
    finally show ?thesis .
  qed
  have "cell_Gamma (solve lib c) ! g =
        resize (ngroups ?c) 0 (cell_Gamma ?c) ! g +
        (\<Sum>r<nregions ?c. Er_tr (cell_mats ?c ! r) g * cell_vols ?c ! r *
            householderQr lib (nregions ?c) (load_M ?c g) (load_b_Y lib ?c g) r)"
    unfolding solve_def by (rule solve_systems_Gamma) (simp add: fr assms(2))
  also have "\<dots> = (\<Sum>r<?n. Er_tr (cell_mats c ! r) g * cell_vols c ! r * ?solver (load_b_Y lib ?c g) r)"
    using assms(2) by (simp add: fr fresh resize_Nil_nth)
  also have "\<dots> = (\<Sum>r<?n. Er_tr (cell_mats c ! r) g * cell_vols c ! r * cell_Y (solve lib c) (g, r))"
    by (rule sum.cong) (simp_all add: Y)
  finally have G: "cell_Gamma (solve lib c) ! g =
      (\<Sum>r<?n. Er_tr (cell_mats c ! r) g * cell_vols c ! r * cell_Y (solve lib c) (g, r))" .
  from b Y[OF assms(3)] ex G show ?thesis by blast
qed

theorem blackness_system_witness:
  "CylindricalCell [1, 2] [Some example_mat, Some example_mat] = Inr two_region_cell \<and>
   (0::nat) < ngroups two_region_cell \<and> 1 < nregions two_region_cell \<and>
   load_b_Y example_lib (calculate_collision_probabilities example_lib two_region_cell) 0 1 =
     4 / (2 * pi * 2) *
     (3 * pi - (cell_p (solve example_lib two_region_cell) (0, 1, 0)
                + cell_p (solve example_lib two_region_cell) (0, 1, 1))) \<and>
   solves_exactly 2 (load_M (calculate_collision_probabilities example_lib two_region_cell) 0)
     (householderQr example_lib 2
        (load_M (calculate_collision_probabilities example_lib two_region_cell) 0)) \<and>
   mat_vec 2 (load_M (calculate_collision_probabilities example_lib two_region_cell) 0)
     (\<lambda>r. cell_Y (solve example_lib two_region_cell) (0, r)) 1 =
     load_b_Y example_lib (calculate_collision_probabilities example_lib two_region_cell) 0 1 \<and>
   cell_Gamma (solve example_lib two_region_cell) ! 0 =
     pi * cell_Y (solve example_lib two_region_cell) (0, 0)
     + 3 * pi * cell_Y (solve example_lib two_region_cell) (0, 1)"
proof -
  have h: "(0::nat) < ngroups two_region_cell" "1 < nregions two_region_cell"
    by (simp_all add: two_region_cell_sizes)
  note ex = two_region_solves_exactly[of example_lib]
  have S: "S example_lib [1, 2] = 2 * pi * 2"
    by (simp add: example_lib_def)
  show ?thesis
    using blackness_system [OF two_region_cell_constructed h, of example_lib] h ex
      two_region_cell_constructed
    by (simp add: two_region_cell_sizes two_region_cell_fields example_mat_fields
        sum_lessThan_2 S)
qed

section \<open>A singular matrix raises no error\<close>

lemma equal_radii_cell_fields:
  "nregions equal_radii_cell = 2" "ngroups equal_radii_cell = 1"
  "cell_mats equal_radii_cell = [example_mat, example_mat]"
  "cell_vols equal_radii_cell ! 0 = pi" "cell_vols equal_radii_cell ! Suc 0 = 0"
  by (simp_all add: nregions_def ngroups_def equal_radii_cell_def calculate_vols_nth PI_def)

lemma equal_radii_M_column:
  assumes "i < 2"
  shows "load_M (calculate_collision_probabilities lib equal_radii_cell) 0 (i, Suc 0) = 0"
proof -
  from assms have "i = 0 \<or> i = Suc 0" by auto
  then show ?thesis
    by (auto simp: load_M_entry M_entry_def collision_frame equal_radii_cell_fields
        example_mat_fields)
qed

lemma equal_radii_M_singular:
  "singular 2 (load_M (calculate_collision_probabilities lib equal_radii_cell) 0)"
proof -
  let ?x = "\<lambda>j. if j = Suc 0 then 1 else 0 :: real"
  have 1: "\<exists>j<2. ?x j \<noteq> 0"
    by (rule exI[of _ "Suc 0"]) simp
  have 2: "\<forall>i<2. mat_vec 2 (load_M (calculate_collision_probabilities lib equal_radii_cell) 0)
              ?x i = 0"
    by (simp add: mat_vec_def sum_lessThan_2 equal_radii_M_column)
  have "(\<exists>j<2. ?x j \<noteq> 0) \<and>
        (\<forall>i<2. mat_vec 2 (load_M (calculate_collision_probabilities lib equal_radii_cell) 0)
              ?x i = 0)"
    using 1 2 by (rule conjI)
  then show ?thesis
    unfolding singular_def by (rule exI[of _ ?x])
qed

text \<open>
  Claim C3, as stated, fails. The constructor accepts the radii \<open>[1, 1]\<close>; the second
  region then has volume 0, and with no scattering the matrix of group 0 is
  \<open>diag(pi, 0)\<close>, whatever \<open>Ki3\<close> and the quadrature are. It is singular, and \<^verbatim>\<open>solve\<close>
  returns with \<^verbatim>\<open>solved_\<close> set: there is no check and no \<^verbatim>\<open>throw\<close> in \<^verbatim>\<open>solve_systems\<close>.
\<close>

theorem singular_matrix_solved:
  "CylindricalCell [1, 1] [Some example_mat, Some example_mat] = Inr equal_radii_cell \<and>
   (\<forall>lib. singular (nregions equal_radii_cell)
            (load_M (calculate_collision_probabilities lib equal_radii_cell) 0) \<and>
          cell_solved (solve lib equal_radii_cell))"
  by (simp add: equal_radii_cell_constructed equal_radii_cell_fields equal_radii_M_singular
      solve_def solve_systems_frame)

text \<open>
  Claim C3, amended: \<^verbatim>\<open>solve\<close> makes no check of the matrix \<open>M\<close> and raises no error. For
  every cell and every group, singular matrix or not, it stores in \<open>X\<close> and \<open>Y\<close> what the
  factorisation of \<open>M\<close> returns and marks the cell as solved.
\<close>

theorem solve_stores_whatever_the_solver_returns:
  assumes "g < ngroups c" "i < nregions c" "k < nregions c"
  shows "cell_solved (solve lib c) \<and>
         cell_X (solve lib c) (g, i, k) =
           householderQr lib (nregions c) (load_M (calculate_collision_probabilities lib c) g)
             (load_b_X (calculate_collision_probabilities lib c) g k) i \<and>
         cell_Y (solve lib c) (g, i) =
           householderQr lib (nregions c) (load_M (calculate_collision_probabilities lib c) g)
             (load_b_Y lib (calculate_collision_probabilities lib c) g) i"
  using assms
  by (simp add: solve_def solve_systems_frame solve_systems_X solve_systems_Y collision_frame)

theorem solve_stores_whatever_the_solver_returns_witness:
  "(0::nat) < ngroups equal_radii_cell \<and> 1 < nregions equal_radii_cell \<and>
   0 < nregions equal_radii_cell \<and>
   (\<forall>lib. singular 2 (load_M (calculate_collision_probabilities lib equal_radii_cell) 0) \<and>
      cell_solved (solve lib equal_radii_cell) \<and>
      cell_X (solve lib equal_radii_cell) (0, 1, 0) =
        householderQr lib 2 (load_M (calculate_collision_probabilities lib equal_radii_cell) 0)
          (load_b_X (calculate_collision_probabilities lib equal_radii_cell) 0 0) 1 \<and>
      cell_Y (solve lib equal_radii_cell) (0, 1) =
        householderQr lib 2 (load_M (calculate_collision_probabilities lib equal_radii_cell) 0)
          (load_b_Y lib (calculate_collision_probabilities lib equal_radii_cell) 0) 1)"
proof -
  have h: "(0::nat) < ngroups equal_radii_cell" "1 < nregions equal_radii_cell"
    "0 < nregions equal_radii_cell"
    by (simp_all add: equal_radii_cell_fields)
  have "singular 2 (load_M (calculate_collision_probabilities lib equal_radii_cell) 0) \<and>
      cell_solved (solve lib equal_radii_cell) \<and>
      cell_X (solve lib equal_radii_cell) (0, 1, 0) =
        householderQr lib 2 (load_M (calculate_collision_probabilities lib equal_radii_cell) 0)
          (load_b_X (calculate_collision_probabilities lib equal_radii_cell) 0 0) 1 \<and>
      cell_Y (solve lib equal_radii_cell) (0, 1) =
        householderQr lib 2 (load_M (calculate_collision_probabilities lib equal_radii_cell) 0)
          (load_b_Y lib (calculate_collision_probabilities lib equal_radii_cell) 0) 1" for lib
    using solve_stores_whatever_the_solver_returns [OF h, of lib] equal_radii_M_singular[of lib]
    by (simp add: equal_radii_cell_fields)
  then show ?thesis using h by blast
qed

section \<open>Solving twice\<close>

lemma calculate_S_ij_cong:
  assumes "cell_radii c' = cell_radii c" "cell_mats c' = cell_mats c"
  shows "calculate_S_ij lib c' i j g = calculate_S_ij lib c i j g"
proof -
  have tb: "tau_body c' k i g x = tau_body c k i g x" for k i x
    by (intro ext) (simp add: tau_body_def assms)
  have xc: "x_coords c' k j y = x_coords c k j y" for k j y
    by (simp add: x_coords_def assms)
  have ta: "tau c' k i j g y = tau c k i j g y" for k i j y
    by (simp add: tau_def tb xc)
  have ig: "integrand lib c' k i j g = integrand lib c k i j g" for k i j
    by (intro ext) (simp add: integrand_def ta)
  have sb: "S_ij_body lib c' i j g = S_ij_body lib c i j g" for i j
    by (intro ext) (simp add: S_ij_body_def ig assms)
  show ?thesis
    by (simp add: calculate_S_ij_def sb)
qed

lemma collision_idempotent:
  assumes "cell_radii c' = cell_radii c" "cell_mats c' = cell_mats c"
    "cell_vols c' = cell_vols c" "cell_ngroups c' = cell_ngroups c"
    "cell_p c' = cell_p (calculate_collision_probabilities lib c)"
  shows "cell_p (calculate_collision_probabilities lib c') =
         cell_p (calculate_collision_probabilities lib c)"
proof
  fix x :: "nat \<times> nat \<times> nat"
  obtain h a b where x: "x = (h, a, b)" by (cases x)
  have n: "nregions c' = nregions c" "ngroups c' = ngroups c"
    by (simp_all add: nregions_def ngroups_def assms)
  show "cell_p (calculate_collision_probabilities lib c') x =
        cell_p (calculate_collision_probabilities lib c) x"
  proof (cases "h < ngroups c \<and> a < nregions c \<and> b < nregions c")
    case True
    then have mm: "min a b \<le> max a b" "max a b < nregions c" by simp_all
    have "P_entry c' h (load_S lib c' h (\<lambda>_. 0)) (min a b) (max a b) =
          P_entry c h (load_S lib c h (\<lambda>_. 0)) (min a b) (max a b)"
      using mm by (simp add: P_entry_load_S n calculate_S_ij_cong[OF assms(1,2)] assms)
    then show ?thesis
      using True by (simp add: x cell_p_collision n)
  next
    case False
    then have "cell_p (calculate_collision_probabilities lib c') (h, a, b) = cell_p c' (h, a, b)"
      by (auto simp: cell_p_collision n)
    then show ?thesis
      by (simp add: x assms(5))
  qed
qed

lemma solve_frame:
  "cell_radii (solve lib c) = cell_radii c"
  "cell_vols (solve lib c) = cell_vols c"
  "cell_mats (solve lib c) = cell_mats c"
  "cell_ngroups (solve lib c) = cell_ngroups c"
  "nregions (solve lib c) = nregions c"
  "ngroups (solve lib c) = ngroups c"
  "length (cell_Gamma (solve lib c)) = ngroups c"
  "cell_solved (solve lib c) = True"
  by (simp_all add: solve_def solve_systems_frame solve_systems_inputs collision_frame)

lemma second_collision_p:
  "cell_p (calculate_collision_probabilities lib (solve lib c)) =
   cell_p (calculate_collision_probabilities lib c)"
  by (rule collision_idempotent) (simp_all add: solve_frame solve_p)

lemma second_solve_inputs:
  "nregions (calculate_collision_probabilities lib (solve lib c)) = nregions c"
  "ngroups (calculate_collision_probabilities lib (solve lib c)) = ngroups c"
  "load_M (calculate_collision_probabilities lib (solve lib c)) g =
   load_M (calculate_collision_probabilities lib c) g"
  "load_b_X (calculate_collision_probabilities lib (solve lib c)) g k =
   load_b_X (calculate_collision_probabilities lib c) g k"
  "load_b_Y lib (calculate_collision_probabilities lib (solve lib c)) g =
   load_b_Y lib (calculate_collision_probabilities lib c) g"
proof -
  let ?c2 = "calculate_collision_probabilities lib (solve lib c)"
  let ?c1 = "calculate_collision_probabilities lib c"
  have fr: "cell_p ?c2 = cell_p ?c1" "cell_mats ?c2 = cell_mats ?c1"
    "cell_vols ?c2 = cell_vols ?c1" "cell_radii ?c2 = cell_radii ?c1"
    "cell_ngroups ?c2 = cell_ngroups ?c1"
    by (simp_all add: second_collision_p collision_frame solve_frame)
  show "nregions ?c2 = nregions c" "ngroups ?c2 = ngroups c"
    by (simp_all add: collision_frame solve_frame)
  show "load_M ?c2 g = load_M ?c1 g"
    by (rule load_M_cong) (rule fr)+
  show "load_b_X ?c2 g k = load_b_X ?c1 g k"
    by (rule load_b_X_cong) (rule fr)+
  show "load_b_Y lib ?c2 g = load_b_Y lib ?c1 g"
    by (rule load_b_Y_cong) (rule fr)+
qed

lemma second_solve_p_X_Y:
  "cell_p (solve lib (solve lib c)) = cell_p (solve lib c)"
  "cell_X (solve lib (solve lib c)) = cell_X (solve lib c)"
  "cell_Y (solve lib (solve lib c)) = cell_Y (solve lib c)"
proof -
  show "cell_p (solve lib (solve lib c)) = cell_p (solve lib c)"
    by (simp add: solve_p second_collision_p)
  show "cell_X (solve lib (solve lib c)) = cell_X (solve lib c)"
  proof
    fix x :: "nat \<times> nat \<times> nat"
    obtain h a b where x: "x = (h, a, b)" by (cases x)
    show "cell_X (solve lib (solve lib c)) x = cell_X (solve lib c) x"
      unfolding x solve_def[of lib "solve lib c"] solve_systems_X second_solve_inputs
      by (simp add: solve_def solve_systems_X collision_frame)
  qed
  show "cell_Y (solve lib (solve lib c)) = cell_Y (solve lib c)"
  proof
    fix x :: "nat \<times> nat"
    obtain h a where x: "x = (h, a)" by (cases x)
    show "cell_Y (solve lib (solve lib c)) x = cell_Y (solve lib c) x"
      unfolding x solve_def[of lib "solve lib c"] solve_systems_Y second_solve_inputs
      by (simp add: solve_def solve_systems_Y collision_frame)
  qed
qed

lemma solve_Gamma:
  assumes "g < ngroups c"
  shows "cell_Gamma (solve lib c) ! g =
     resize (ngroups c) 0 (cell_Gamma c) ! g +
     (\<Sum>i<nregions c. Er_tr (cell_mats c ! i) g * cell_vols c ! i *
        householderQr lib (nregions c) (load_M (calculate_collision_probabilities lib c) g)
          (load_b_Y lib (calculate_collision_probabilities lib c) g) i)"
  using solve_systems_Gamma[of g "calculate_collision_probabilities lib c" lib] assms
  by (simp add: solve_def collision_frame)

lemma second_solve_Gamma:
  assumes "g < ngroups c"
  shows "cell_Gamma (solve lib (solve lib c)) ! g =
     cell_Gamma (solve lib c) ! g +
     (\<Sum>i<nregions c. Er_tr (cell_mats c ! i) g * cell_vols c ! i *
        householderQr lib (nregions c) (load_M (calculate_collision_probabilities lib c) g)
          (load_b_Y lib (calculate_collision_probabilities lib c) g) i)"
proof -
  let ?c1 = "solve lib c"
  have fr: "nregions ?c1 = nregions c" "ngroups ?c1 = ngroups c"
    "cell_mats ?c1 = cell_mats c" "cell_vols ?c1 = cell_vols c"
    "length (cell_Gamma ?c1) = ngroups c"
    by (simp_all add: solve_frame)
  have g: "g < ngroups ?c1" using assms by (simp add: fr)
  have n2: "nregions (calculate_collision_probabilities lib ?c1) = nregions ?c1"
    by (simp add: collision_frame)
  show ?thesis
    unfolding solve_Gamma[OF g]
    unfolding second_solve_inputs[unfolded n2[symmetric]]
    by (simp add: fr resize_same_length second_solve_inputs)
qed

text \<open>
  Claim C2 fails on the code. \<^verbatim>\<open>solve_systems\<close> resets \<^verbatim>\<open>X_\<close> and \<^verbatim>\<open>Y_\<close> with \<^verbatim>\<open>fill(0.)\<close>,
  but \<^verbatim>\<open>Gamma_\<close> only with \<^verbatim>\<open>resize(ngroups(), 0.)\<close>, which leaves a vector that already has
  that length as it is; line 254 then adds to the old value. For the cell with radii 1
  and 2, and for every value of the absent functions, a second \<^verbatim>\<open>solve\<close> leaves \<open>P\<close>, \<open>X\<close>
  and \<open>Y\<close> as they were and doubles \<open>Gamma[0]\<close>.
\<close>

theorem second_solve_doubles_Gamma:
  "CylindricalCell [1, 2] [Some example_mat, Some example_mat] = Inr two_region_cell \<and>
   (\<forall>lib. cell_p (solve lib (solve lib two_region_cell)) = cell_p (solve lib two_region_cell) \<and>
          cell_X (solve lib (solve lib two_region_cell)) = cell_X (solve lib two_region_cell) \<and>
          cell_Y (solve lib (solve lib two_region_cell)) = cell_Y (solve lib two_region_cell) \<and>
          cell_Gamma (solve lib (solve lib two_region_cell)) ! 0 =
            2 * cell_Gamma (solve lib two_region_cell) ! 0)"
proof -
  have g: "0 < ngroups two_region_cell" by (simp add: two_region_cell_sizes)
  have "cell_Gamma (solve lib (solve lib two_region_cell)) ! 0 =
            2 * cell_Gamma (solve lib two_region_cell) ! 0" for lib
    unfolding second_solve_Gamma[OF g]
    by (simp add: solve_Gamma[OF g] two_region_cell_fields resize_Nil_nth two_region_cell_sizes)
  then show ?thesis
    by (simp add: two_region_cell_constructed second_solve_p_X_Y)
qed

end
